theory Spec2Isabelle
  imports Complex_Main "HOL-Library.Word" "HOL-Library.Monad_Syntax"
begin

unbundle bit_operations_syntax

section \<open>The register interface of the LiteSDCard core\<close>

text \<open>
  The driver \<^verbatim>\<open>litex/soc/software/liblitesdcard/sdcard.c\<close> talks to the SD core only
  through the generated CSR accessors (\<^verbatim>\<open>sdcard_core_cmd_event_read\<close>,
  \<^verbatim>\<open>sdcard_block2mem_dma_length_write\<close>, ...). Every accessor call, every delay and
  every \<^verbatim>\<open>printf\<close> is recorded, in program order, in a list of events; the list is the
  state the driver functions pass along. The target is the 32-bit RISC-V of the
  repository's \<^verbatim>\<open>crt0\<close> (4-byte register save slots), so \<^verbatim>\<open>unsigned long\<close>,
  \<^verbatim>\<open>unsigned int\<close>, \<^verbatim>\<open>int\<close> and pointers are 32-bit words.
\<close>

datatype reg =
    CMD_ARGUMENT | CMD_COMMAND | CMD_SEND | CMD_EVENT | CMD_RESPONSE nat
  | DATA_EVENT | BLOCK_LENGTH | BLOCK_COUNT
  | PHY_CLOCKER_DIVIDER | PHY_INIT_INITIALIZE | PHY_SETTINGS
  | BLOCK2MEM_DMA_ENABLE | BLOCK2MEM_DMA_BASE | BLOCK2MEM_DMA_LENGTH | BLOCK2MEM_DMA_DONE
  | MEM2BLOCK_DMA_ENABLE | MEM2BLOCK_DMA_BASE | MEM2BLOCK_DMA_LENGTH | MEM2BLOCK_DMA_DONE

datatype event =
    Wr reg "32 word"
  | Wr64 reg "64 word"
  | Rd reg "32 word"
  | Busy_wait nat
  | Busy_wait_us nat
  | Printf string "32 word list"
  | Flush_cpu_dcache
  | Flush_l2_cache

text \<open>
  The hardware is any deterministic device: the value a register read returns is a
  function of everything the driver has done so far and of the register read.
\<close>

type_synonym hw = "event list \<Rightarrow> reg \<Rightarrow> 32 word"

definition csr_write :: "reg \<Rightarrow> 32 word \<Rightarrow> event list \<Rightarrow> event list" where
  "csr_write r v tr = tr @ [Wr r v]"

definition csr_write64 :: "reg \<Rightarrow> 64 word \<Rightarrow> event list \<Rightarrow> event list" where
  "csr_write64 r v tr = tr @ [Wr64 r v]"

definition csr_read :: "hw \<Rightarrow> reg \<Rightarrow> event list \<Rightarrow> 32 word \<times> event list" where
  "csr_read hw r tr = (hw tr r, tr @ [Rd r (hw tr r)])"

definition busy_wait :: "nat \<Rightarrow> event list \<Rightarrow> event list" where
  "busy_wait ms tr = tr @ [Busy_wait ms]"

definition busy_wait_us :: "nat \<Rightarrow> event list \<Rightarrow> event list" where
  "busy_wait_us us tr = tr @ [Busy_wait_us us]"

definition printf :: "string \<Rightarrow> 32 word list \<Rightarrow> event list \<Rightarrow> event list" where
  "printf fmt args tr = tr @ [Printf fmt args]"

definition flush_cpu_dcache :: "event list \<Rightarrow> event list" where
  "flush_cpu_dcache tr = tr @ [Flush_cpu_dcache]"

definition flush_l2_cache :: "event list \<Rightarrow> event list" where
  "flush_l2_cache tr = tr @ [Flush_l2_cache]"

text \<open>
  \<^verbatim>\<open>csr_rd_buf_uint32(CSR_SDCARD_CORE_CMD_RESPONSE_ADDR, r, SD_CMD_RESPONSE_SIZE/4)\<close>:
  the four 32-bit response words, read in index order.
\<close>

definition csr_rd_buf_response :: "hw \<Rightarrow> event list \<Rightarrow> 32 word list \<times> event list" where
  "csr_rd_buf_response hw tr =
     (case csr_read hw (CMD_RESPONSE 0) tr of (r0, tr0) \<Rightarrow>
      case csr_read hw (CMD_RESPONSE 1) tr0 of (r1, tr1) \<Rightarrow>
      case csr_read hw (CMD_RESPONSE 2) tr1 of (r2, tr2) \<Rightarrow>
      case csr_read hw (CMD_RESPONSE 3) tr2 of (r3, tr3) \<Rightarrow>
        ([r0, r1, r2, r3], tr3))"

section \<open>Build configuration and constants of the missing headers\<close>

text \<open>
  The macros of \<^verbatim>\<open>sdcard.h\<close>, \<^verbatim>\<open>generated/soc.h\<close> and \<^verbatim>\<open>libfatfs/diskio.h\<close> are not
  part of the sources at hand; they are parameters of the model, with the
  configuration switches of \<^verbatim>\<open>sdcard.c\<close> itself.
\<close>

record cfg =
  CONFIG_CLOCK_FREQUENCY :: "32 word"
  CONFIG_CPU_HAS_DMA_BUS :: bool
  SDCARD_CMD18_SUPPORT :: bool
  SDCARD_CMD23_SUPPORT :: bool
  SDCARD_CMD25_SUPPORT :: bool
  SDCARD_CTRL_RESPONSE_NONE :: "32 word"
  SDCARD_CTRL_RESPONSE_SHORT :: "32 word"
  SDCARD_CTRL_RESPONSE_LONG :: "32 word"
  SDCARD_CTRL_RESPONSE_SHORT_BUSY :: "32 word"
  SDCARD_CTRL_DATA_TRANSFER_READ :: "32 word"
  SDCARD_CTRL_DATA_TRANSFER_WRITE :: "32 word"
  SD_PHY_SPEED_4X :: "32 word"
  SD_SWITCH_SWITCH :: "32 word"
  SD_GROUP_ACCESSMODE :: "32 word"
  SD_SPEED_SDR25 :: "32 word"
  STA_NOINIT :: "8 word"

text \<open>
  Modelled from the spec: the result codes \<^verbatim>\<open>SD_OK\<close>, \<^verbatim>\<open>SD_TIMEOUT\<close> and
  \<^verbatim>\<open>SD_CRCERROR\<close> of the missing \<^verbatim>\<open>sdcard.h\<close>, which the spec names as the three
  distinct results Ok, Timeout and CrcError of the command engine.
\<close>

datatype sd_result = SD_OK | SD_TIMEOUT | SD_CRCERROR

definition SDCARD_CLK_FREQ_INIT :: "32 word" where
  "SDCARD_CLK_FREQ_INIT = 400000"

definition SDCARD_CLK_FREQ :: "32 word" where
  "SDCARD_CLK_FREQ = 25000000"

definition DIV_ROUND_UP :: "32 word \<Rightarrow> 32 word \<Rightarrow> 32 word" where
  "DIV_ROUND_UP n d = (n + d - 1) div d"

section \<open>SDCard command helpers\<close>

text \<open>
  The \<^verbatim>\<open>for (;;)\<close> loop of \<^verbatim>\<open>sdcard_wait_cmd_done\<close>: read the command event
  register, wait 10 us, leave when bit 0 is set. It has no bound of its own.
\<close>

partial_function (option) sdcard_wait_cmd_done_poll ::
  "hw \<Rightarrow> event list \<Rightarrow> (32 word \<times> event list) option" where
  "sdcard_wait_cmd_done_poll hw tr =
     (case csr_read hw CMD_EVENT tr of (event, tr1) \<Rightarrow>
        let tr2 = busy_wait_us 10 tr1 in
        if event AND 0x1 \<noteq> 0 then Some (event, tr2)
        else sdcard_wait_cmd_done_poll hw tr2)"

definition sdcard_wait_cmd_done :: "hw \<Rightarrow> event list \<Rightarrow> (sd_result \<times> event list) option" where
  "sdcard_wait_cmd_done hw tr =
     (case sdcard_wait_cmd_done_poll hw tr of
        None \<Rightarrow> None
      | Some (event, tr1) \<Rightarrow>
          if event AND 0x4 \<noteq> 0 then Some (SD_TIMEOUT, tr1)
          else if event AND 0x8 \<noteq> 0 then Some (SD_CRCERROR, tr1)
          else Some (SD_OK, tr1))"

text \<open>
  The loop of \<^verbatim>\<open>sdcard_wait_data_done\<close> tests bit 0 before it waits.
\<close>

partial_function (option) sdcard_wait_data_done_poll ::
  "hw \<Rightarrow> event list \<Rightarrow> (32 word \<times> event list) option" where
  "sdcard_wait_data_done_poll hw tr =
     (case csr_read hw DATA_EVENT tr of (event, tr1) \<Rightarrow>
        if event AND 0x1 \<noteq> 0 then Some (event, tr1)
        else sdcard_wait_data_done_poll hw (busy_wait_us 10 tr1))"

definition sdcard_wait_data_done :: "hw \<Rightarrow> event list \<Rightarrow> (sd_result \<times> event list) option" where
  "sdcard_wait_data_done hw tr =
     (case sdcard_wait_data_done_poll hw tr of
        None \<Rightarrow> None
      | Some (event, tr1) \<Rightarrow>
          if event AND 0x4 \<noteq> 0 then Some (SD_TIMEOUT, tr1)
          else if event AND 0x8 \<noteq> 0 then Some (SD_CRCERROR, tr1)
          else Some (SD_OK, tr1))"

section \<open>SDCard clocker functions\<close>

definition sdcard_set_clk_freq :: "cfg \<Rightarrow> 32 word \<Rightarrow> 32 word \<Rightarrow> event list \<Rightarrow> event list" where
  "sdcard_set_clk_freq cfg clk_freq show tr =
     (let divider = (if clk_freq \<noteq> 0 then DIV_ROUND_UP (CONFIG_CLOCK_FREQUENCY cfg) clk_freq
                     else 256);
          divider = min (max divider 2) 256;
          tr1 = (if show \<noteq> 0 then
                   (let clk_freq = CONFIG_CLOCK_FREQUENCY cfg div ((divider + 1) AND NOT 1);
                        tr0 = printf ''Setting SDCard clk freq to '' [] tr
                    in if clk_freq > 1000000
                       then printf ''%ld MHz\<newline>'' [clk_freq div 1000000] tr0
                       else printf ''%ld KHz\<newline>'' [clk_freq div 1000] tr0)
                 else tr)
      in csr_write PHY_CLOCKER_DIVIDER divider tr1)"

section \<open>SDCard commands functions\<close>

definition sdcard_send_command ::
  "hw \<Rightarrow> 32 word \<Rightarrow> 8 word \<Rightarrow> 8 word \<Rightarrow> event list \<Rightarrow> (sd_result \<times> event list) option" where
  "sdcard_send_command hw arg cmd rsp tr =
     (let tr1 = csr_write CMD_ARGUMENT arg tr;
          tr2 = csr_write CMD_COMMAND (push_bit 8 (ucast cmd) OR ucast rsp) tr1;
          tr3 = csr_write CMD_SEND 1 tr2
      in sdcard_wait_cmd_done hw tr3)"

definition sdcard_go_idle :: "cfg \<Rightarrow> hw \<Rightarrow> event list \<Rightarrow> (sd_result \<times> event list) option" where
  "sdcard_go_idle cfg hw tr =
     sdcard_send_command hw 0 0 (ucast (SDCARD_CTRL_RESPONSE_NONE cfg)) tr"

definition sdcard_send_ext_csd :: "cfg \<Rightarrow> hw \<Rightarrow> event list \<Rightarrow> (sd_result \<times> event list) option" where
  "sdcard_send_ext_csd cfg hw tr =
     (let arg = 0x000001aa
      in sdcard_send_command hw arg 8 (ucast (SDCARD_CTRL_RESPONSE_SHORT cfg)) tr)"

definition sdcard_app_cmd ::
  "cfg \<Rightarrow> hw \<Rightarrow> 16 word \<Rightarrow> event list \<Rightarrow> (sd_result \<times> event list) option" where
  "sdcard_app_cmd cfg hw rca tr =
     sdcard_send_command hw (push_bit 16 (ucast rca)) 55 (ucast (SDCARD_CTRL_RESPONSE_SHORT cfg)) tr"

definition sdcard_app_send_op_cond ::
  "cfg \<Rightarrow> hw \<Rightarrow> 32 word \<Rightarrow> event list \<Rightarrow> (sd_result \<times> event list) option" where
  "sdcard_app_send_op_cond cfg hw hcs tr =
     (let arg = 0x10ff8000;
          arg = (if hcs \<noteq> 0 then arg OR 0x60000000 else arg)
      in sdcard_send_command hw arg 41 (ucast (SDCARD_CTRL_RESPONSE_SHORT_BUSY cfg)) tr)"

definition sdcard_all_send_cid :: "cfg \<Rightarrow> hw \<Rightarrow> event list \<Rightarrow> (sd_result \<times> event list) option" where
  "sdcard_all_send_cid cfg hw tr =
     sdcard_send_command hw 0 2 (ucast (SDCARD_CTRL_RESPONSE_LONG cfg)) tr"

definition sdcard_set_relative_address ::
  "cfg \<Rightarrow> hw \<Rightarrow> event list \<Rightarrow> (sd_result \<times> event list) option" where
  "sdcard_set_relative_address cfg hw tr =
     sdcard_send_command hw 0 3 (ucast (SDCARD_CTRL_RESPONSE_SHORT cfg)) tr"

definition sdcard_send_cid ::
  "cfg \<Rightarrow> hw \<Rightarrow> 16 word \<Rightarrow> event list \<Rightarrow> (sd_result \<times> event list) option" where
  "sdcard_send_cid cfg hw rca tr =
     sdcard_send_command hw (push_bit 16 (ucast rca)) 10 (ucast (SDCARD_CTRL_RESPONSE_LONG cfg)) tr"

definition sdcard_send_csd ::
  "cfg \<Rightarrow> hw \<Rightarrow> 16 word \<Rightarrow> event list \<Rightarrow> (sd_result \<times> event list) option" where
  "sdcard_send_csd cfg hw rca tr =
     sdcard_send_command hw (push_bit 16 (ucast rca)) 9 (ucast (SDCARD_CTRL_RESPONSE_LONG cfg)) tr"

definition sdcard_select_card ::
  "cfg \<Rightarrow> hw \<Rightarrow> 16 word \<Rightarrow> event list \<Rightarrow> (sd_result \<times> event list) option" where
  "sdcard_select_card cfg hw rca tr =
     sdcard_send_command hw (push_bit 16 (ucast rca)) 7
       (ucast (SDCARD_CTRL_RESPONSE_SHORT_BUSY cfg)) tr"

definition sdcard_app_set_bus_width ::
  "cfg \<Rightarrow> hw \<Rightarrow> event list \<Rightarrow> (sd_result \<times> event list) option" where
  "sdcard_app_set_bus_width cfg hw tr =
     sdcard_send_command hw 2 6 (ucast (SDCARD_CTRL_RESPONSE_SHORT cfg)) tr"

text \<open>
  The loop \<^verbatim>\<open>while (sdcard_send_command(arg, cmd, rsp) != SD_OK);\<close> of the six
  data-bearing commands: the command is sent again until it reports \<^verbatim>\<open>SD_OK\<close>.
\<close>

partial_function (option) sdcard_send_command_until_ok ::
  "hw \<Rightarrow> 32 word \<Rightarrow> 8 word \<Rightarrow> 8 word \<Rightarrow> event list \<Rightarrow> event list option" where
  "sdcard_send_command_until_ok hw arg cmd rsp tr =
     (case sdcard_send_command hw arg cmd rsp tr of
        None \<Rightarrow> None
      | Some (r, tr1) \<Rightarrow>
          if r \<noteq> SD_OK then sdcard_send_command_until_ok hw arg cmd rsp tr1
          else Some tr1)"

definition sdcard_switch ::
  "cfg \<Rightarrow> hw \<Rightarrow> 32 word \<Rightarrow> 32 word \<Rightarrow> 32 word \<Rightarrow> event list \<Rightarrow> (sd_result \<times> event list) option" where
  "sdcard_switch cfg hw mode grp val tr =
     (let arg = push_bit 31 mode OR 0xffffff;
          arg = arg AND NOT (push_bit (unat (grp * 4)) 0xf);
          arg = arg OR push_bit (unat (grp * 4)) val;
          tr1 = csr_write BLOCK_LENGTH 64 tr;
          tr2 = csr_write BLOCK_COUNT 1 tr1
      in case sdcard_send_command_until_ok hw arg 6
                (ucast (push_bit 5 (SDCARD_CTRL_DATA_TRANSFER_READ cfg)
                        OR SDCARD_CTRL_RESPONSE_SHORT cfg)) tr2 of
           None \<Rightarrow> None
         | Some tr3 \<Rightarrow> sdcard_wait_data_done hw tr3)"

definition sdcard_app_send_scr :: "cfg \<Rightarrow> hw \<Rightarrow> event list \<Rightarrow> (sd_result \<times> event list) option" where
  "sdcard_app_send_scr cfg hw tr =
     (let tr1 = csr_write BLOCK_LENGTH 8 tr;
          tr2 = csr_write BLOCK_COUNT 1 tr1
      in case sdcard_send_command_until_ok hw 0 51
                (ucast (push_bit 5 (SDCARD_CTRL_DATA_TRANSFER_READ cfg)
                        OR SDCARD_CTRL_RESPONSE_SHORT cfg)) tr2 of
           None \<Rightarrow> None
         | Some tr3 \<Rightarrow> sdcard_wait_data_done hw tr3)"

definition sdcard_app_set_blocklen ::
  "cfg \<Rightarrow> hw \<Rightarrow> 32 word \<Rightarrow> event list \<Rightarrow> (sd_result \<times> event list) option" where
  "sdcard_app_set_blocklen cfg hw blocklen tr =
     sdcard_send_command hw blocklen 16 (ucast (SDCARD_CTRL_RESPONSE_SHORT cfg)) tr"

definition sdcard_write_single_block ::
  "cfg \<Rightarrow> hw \<Rightarrow> 32 word \<Rightarrow> event list \<Rightarrow> (sd_result \<times> event list) option" where
  "sdcard_write_single_block cfg hw blockaddr tr =
     (let tr1 = csr_write BLOCK_LENGTH 512 tr;
          tr2 = csr_write BLOCK_COUNT 1 tr1
      in case sdcard_send_command_until_ok hw blockaddr 24
                (ucast (push_bit 5 (SDCARD_CTRL_DATA_TRANSFER_WRITE cfg)
                        OR SDCARD_CTRL_RESPONSE_SHORT cfg)) tr2 of
           None \<Rightarrow> None
         | Some tr3 \<Rightarrow> Some (SD_OK, tr3))"

definition sdcard_write_multiple_block ::
  "cfg \<Rightarrow> hw \<Rightarrow> 32 word \<Rightarrow> 32 word \<Rightarrow> event list \<Rightarrow> (sd_result \<times> event list) option" where
  "sdcard_write_multiple_block cfg hw blockaddr blockcnt tr =
     (let tr1 = csr_write BLOCK_LENGTH 512 tr;
          tr2 = csr_write BLOCK_COUNT blockcnt tr1
      in case sdcard_send_command_until_ok hw blockaddr 25
                (ucast (push_bit 5 (SDCARD_CTRL_DATA_TRANSFER_WRITE cfg)
                        OR SDCARD_CTRL_RESPONSE_SHORT cfg)) tr2 of
           None \<Rightarrow> None
         | Some tr3 \<Rightarrow> Some (SD_OK, tr3))"

definition sdcard_read_single_block ::
  "cfg \<Rightarrow> hw \<Rightarrow> 32 word \<Rightarrow> event list \<Rightarrow> (sd_result \<times> event list) option" where
  "sdcard_read_single_block cfg hw blockaddr tr =
     (let tr1 = csr_write BLOCK_LENGTH 512 tr;
          tr2 = csr_write BLOCK_COUNT 1 tr1
      in case sdcard_send_command_until_ok hw blockaddr 17
                (ucast (push_bit 5 (SDCARD_CTRL_DATA_TRANSFER_READ cfg)
                        OR SDCARD_CTRL_RESPONSE_SHORT cfg)) tr2 of
           None \<Rightarrow> None
         | Some tr3 \<Rightarrow> sdcard_wait_data_done hw tr3)"

definition sdcard_read_multiple_block ::
  "cfg \<Rightarrow> hw \<Rightarrow> 32 word \<Rightarrow> 32 word \<Rightarrow> event list \<Rightarrow> (sd_result \<times> event list) option" where
  "sdcard_read_multiple_block cfg hw blockaddr blockcnt tr =
     (let tr1 = csr_write BLOCK_LENGTH 512 tr;
          tr2 = csr_write BLOCK_COUNT blockcnt tr1
      in case sdcard_send_command_until_ok hw blockaddr 18
                (ucast (push_bit 5 (SDCARD_CTRL_DATA_TRANSFER_READ cfg)
                        OR SDCARD_CTRL_RESPONSE_SHORT cfg)) tr2 of
           None \<Rightarrow> None
         | Some tr3 \<Rightarrow> sdcard_wait_data_done hw tr3)"

definition sdcard_stop_transmission ::
  "cfg \<Rightarrow> hw \<Rightarrow> event list \<Rightarrow> (sd_result \<times> event list) option" where
  "sdcard_stop_transmission cfg hw tr =
     sdcard_send_command hw 0 12 (ucast (SDCARD_CTRL_RESPONSE_SHORT_BUSY cfg)) tr"

definition sdcard_send_status ::
  "cfg \<Rightarrow> hw \<Rightarrow> 16 word \<Rightarrow> event list \<Rightarrow> (sd_result \<times> event list) option" where
  "sdcard_send_status cfg hw rca tr =
     sdcard_send_command hw (push_bit 16 (ucast rca)) 13 (ucast (SDCARD_CTRL_RESPONSE_SHORT cfg)) tr"

definition sdcard_set_block_count ::
  "cfg \<Rightarrow> hw \<Rightarrow> 32 word \<Rightarrow> event list \<Rightarrow> (sd_result \<times> event list) option" where
  "sdcard_set_block_count cfg hw blockcnt tr =
     sdcard_send_command hw blockcnt 23 (ucast (SDCARD_CTRL_RESPONSE_SHORT cfg)) tr"

definition sdcard_decode_rca :: "hw \<Rightarrow> event list \<Rightarrow> 16 word \<times> event list" where
  "sdcard_decode_rca hw tr =
     (case csr_rd_buf_response hw tr of (r, tr1) \<Rightarrow>
        (ucast (drop_bit 16 (r ! 3) AND 0xffff), tr1))"

section \<open>SDCard user functions\<close>

text \<open>
  The first loop of \<^verbatim>\<open>sdcard_init\<close>:
  \<^verbatim>\<open>for (timeout=1000; timeout>0; timeout--)\<close>, left early when \<^verbatim>\<open>sdcard_go_idle\<close>
  reports \<^verbatim>\<open>SD_OK\<close>. The function returns the value of \<^verbatim>\<open>timeout\<close> after the loop.
\<close>

function sdcard_init_idle_loop ::
  "cfg \<Rightarrow> hw \<Rightarrow> 16 word \<Rightarrow> event list \<Rightarrow> (16 word \<times> event list) option" where
  "sdcard_init_idle_loop cfg hw timeout tr =
     (if timeout > 0 then
        (let tr1 = csr_write PHY_INIT_INITIALIZE 1 tr;
             tr2 = busy_wait 1 tr1
         in case sdcard_go_idle cfg hw tr2 of
              None \<Rightarrow> None
            | Some (r, tr3) \<Rightarrow>
                if r = SD_OK then Some (timeout, tr3)
                else sdcard_init_idle_loop cfg hw (timeout - 1) (busy_wait 1 tr3))
      else Some (timeout, tr))"
  by pat_completeness auto
termination
  by (relation "measure (\<lambda>(cfg, hw, timeout, tr). unat timeout)")
     (auto simp: unat_minus_one word_greater_zero_iff unat_gt_0)

text \<open>
  The second loop of \<^verbatim>\<open>sdcard_init\<close>: \<^verbatim>\<open>APP_CMD\<close> (result ignored), then
  \<^verbatim>\<open>APP_SEND_OP_COND\<close>; on \<^verbatim>\<open>SD_OK\<close> the response is read and the loop is left when
  bit 31 of \<^verbatim>\<open>r[3]\<close> is set.
\<close>

function sdcard_init_op_cond_loop ::
  "cfg \<Rightarrow> hw \<Rightarrow> 16 word \<Rightarrow> event list \<Rightarrow> (16 word \<times> event list) option" where
  "sdcard_init_op_cond_loop cfg hw timeout tr =
     (if timeout > 0 then
        (case sdcard_app_cmd cfg hw 0 tr of
           None \<Rightarrow> None
         | Some (r0, tr1) \<Rightarrow>
            (case sdcard_app_send_op_cond cfg hw 1 tr1 of
               None \<Rightarrow> None
             | Some (r1, tr2) \<Rightarrow>
                if r1 = SD_OK then
                  (case csr_rd_buf_response hw tr2 of (r, tr3) \<Rightarrow>
                     if (r ! 3) AND 0x80000000 \<noteq> 0 then Some (timeout, tr3)
                     else sdcard_init_op_cond_loop cfg hw (timeout - 1) (busy_wait 1 tr3))
                else sdcard_init_op_cond_loop cfg hw (timeout - 1) (busy_wait 1 tr2)))
      else Some (timeout, tr))"
  by pat_completeness auto
termination
  by (relation "measure (\<lambda>(cfg, hw, timeout, tr). unat timeout)")
     (auto simp: unat_minus_one word_greater_zero_iff unat_gt_0)

text \<open>
  \<^verbatim>\<open>sdcard_init\<close> returns 1 when the card is up and 0 at the first step that fails.
\<close>

definition sdcard_init :: "cfg \<Rightarrow> hw \<Rightarrow> event list \<Rightarrow> (32 word \<times> event list) option" where
  "sdcard_init cfg hw tr = do {
     let tr = sdcard_set_clk_freq cfg SDCARD_CLK_FREQ_INIT 0 tr;
     let tr = busy_wait 1 tr;
     (timeout, tr) \<leftarrow> sdcard_init_idle_loop cfg hw 1000 tr;
     if timeout = 0 then Some (0, tr) else do {
     (r, tr) \<leftarrow> sdcard_send_ext_csd cfg hw tr;
     if r \<noteq> SD_OK then Some (0, tr) else do {
     let tr = sdcard_set_clk_freq cfg SDCARD_CLK_FREQ 0 tr;
     let tr = busy_wait 1 tr;
     (timeout, tr) \<leftarrow> sdcard_init_op_cond_loop cfg hw 1000 tr;
     if timeout = 0 then Some (0, tr) else do {
     (r, tr) \<leftarrow> sdcard_all_send_cid cfg hw tr;
     if r \<noteq> SD_OK then Some (0, tr) else do {
     (r, tr) \<leftarrow> sdcard_set_relative_address cfg hw tr;
     if r \<noteq> SD_OK then Some (0, tr) else do {
     let (rca, tr) = sdcard_decode_rca hw tr;
     (r, tr) \<leftarrow> sdcard_send_cid cfg hw rca tr;
     if r \<noteq> SD_OK then Some (0, tr) else do {
     (r, tr) \<leftarrow> sdcard_send_csd cfg hw rca tr;
     if r \<noteq> SD_OK then Some (0, tr) else do {
     (r, tr) \<leftarrow> sdcard_select_card cfg hw rca tr;
     if r \<noteq> SD_OK then Some (0, tr) else do {
     (r, tr) \<leftarrow> sdcard_app_cmd cfg hw rca tr;
     if r \<noteq> SD_OK then Some (0, tr) else do {
     (r, tr) \<leftarrow> sdcard_app_set_bus_width cfg hw tr;
     if r \<noteq> SD_OK then Some (0, tr) else do {
     let tr = csr_write PHY_SETTINGS (SD_PHY_SPEED_4X cfg) tr;
     (r, tr) \<leftarrow> sdcard_switch cfg hw (SD_SWITCH_SWITCH cfg) (SD_GROUP_ACCESSMODE cfg)
                  (SD_SPEED_SDR25 cfg) tr;
     if r \<noteq> SD_OK then Some (0, tr) else do {
     (r, tr) \<leftarrow> sdcard_app_cmd cfg hw rca tr;
     if r \<noteq> SD_OK then Some (0, tr) else do {
     (r, tr) \<leftarrow> sdcard_app_send_scr cfg hw tr;
     if r \<noteq> SD_OK then Some (0, tr) else do {
     (r, tr) \<leftarrow> sdcard_app_set_blocklen cfg hw 512 tr;
     if r \<noteq> SD_OK then Some (0, tr) else
     Some (1, tr) }}}}}}}}}}}}}}"

text \<open>
  \<^verbatim>\<open>while ((sdcard_block2mem_dma_done_read() & 0x1) == 0);\<close> and its twin for the
  memory-to-block engine: the done register is read until bit 0 is set.
\<close>

partial_function (option) dma_done_poll :: "hw \<Rightarrow> reg \<Rightarrow> event list \<Rightarrow> event list option" where
  "dma_done_poll hw done_reg tr =
     (case csr_read hw done_reg tr of (v, tr1) \<Rightarrow>
        if v AND 0x1 = 0 then dma_done_poll hw done_reg tr1 else Some tr1)"

text \<open>
  One pass through the body of the \<^verbatim>\<open>while (count)\<close> loop of \<^verbatim>\<open>sdcard_read\<close>, from
  the set-up of the DMA writer to the stop command, for the \<^verbatim>\<open>nblocks\<close> the loop has
  chosen. The results of the commands are dropped, as in the source.
\<close>

definition sdcard_read_chunk ::
  "cfg \<Rightarrow> hw \<Rightarrow> 32 word \<Rightarrow> 32 word \<Rightarrow> 32 word \<Rightarrow> event list \<Rightarrow> event list option" where
  "sdcard_read_chunk cfg hw block nblocks buf tr = do {
     let tr = csr_write BLOCK2MEM_DMA_ENABLE 0 tr;
     let tr = csr_write64 BLOCK2MEM_DMA_BASE (ucast buf) tr;
     let tr = csr_write BLOCK2MEM_DMA_LENGTH (512 * nblocks) tr;
     let tr = csr_write BLOCK2MEM_DMA_ENABLE 1 tr;
     tr \<leftarrow> (if SDCARD_CMD23_SUPPORT cfg
            then map_option snd (sdcard_set_block_count cfg hw nblocks tr) else Some tr);
     (r, tr) \<leftarrow> (if nblocks > 1 then sdcard_read_multiple_block cfg hw block nblocks tr
                 else sdcard_read_single_block cfg hw block tr);
     tr \<leftarrow> dma_done_poll hw BLOCK2MEM_DMA_DONE tr;
     (if nblocks > 1 then map_option snd (sdcard_stop_transmission cfg hw tr) else Some tr) }"

function sdcard_read_loop ::
  "cfg \<Rightarrow> hw \<Rightarrow> 32 word \<Rightarrow> 32 word \<Rightarrow> 32 word \<Rightarrow> event list \<Rightarrow> event list option" where
  "sdcard_read_loop cfg hw block count buf tr =
     (if count \<noteq> 0 then
        (let nblocks = (if SDCARD_CMD18_SUPPORT cfg then count else 1)
         in case sdcard_read_chunk cfg hw block nblocks buf tr of
              None \<Rightarrow> None
            | Some tr1 \<Rightarrow>
                sdcard_read_loop cfg hw (block + nblocks) (count - nblocks)
                  (buf + 512 * nblocks) tr1)
      else Some tr)"
  by pat_completeness auto
termination
  by (relation "measure (\<lambda>(cfg, hw, block, count, buf, tr). unat count)")
     (auto simp: unat_minus_one unat_gt_0)

definition sdcard_read ::
  "cfg \<Rightarrow> hw \<Rightarrow> 32 word \<Rightarrow> 32 word \<Rightarrow> 32 word \<Rightarrow> event list \<Rightarrow> event list option" where
  "sdcard_read cfg hw block count buf tr =
     (case sdcard_read_loop cfg hw block count buf tr of
        None \<Rightarrow> None
      | Some tr1 \<Rightarrow>
          if \<not> CONFIG_CPU_HAS_DMA_BUS cfg then Some (flush_l2_cache (flush_cpu_dcache tr1))
          else Some tr1)"

text \<open>
  The body of the \<^verbatim>\<open>while (count)\<close> loop of \<^verbatim>\<open>sdcard_write\<close>: the stop command
  comes before the poll of the DMA reader.
\<close>

definition sdcard_write_chunk ::
  "cfg \<Rightarrow> hw \<Rightarrow> 32 word \<Rightarrow> 32 word \<Rightarrow> 32 word \<Rightarrow> event list \<Rightarrow> event list option" where
  "sdcard_write_chunk cfg hw block nblocks buf tr = do {
     let tr = csr_write MEM2BLOCK_DMA_ENABLE 0 tr;
     let tr = csr_write64 MEM2BLOCK_DMA_BASE (ucast buf) tr;
     let tr = csr_write MEM2BLOCK_DMA_LENGTH (512 * nblocks) tr;
     let tr = csr_write MEM2BLOCK_DMA_ENABLE 1 tr;
     tr \<leftarrow> (if SDCARD_CMD23_SUPPORT cfg
            then map_option snd (sdcard_set_block_count cfg hw nblocks tr) else Some tr);
     (r, tr) \<leftarrow> (if nblocks > 1 then sdcard_write_multiple_block cfg hw block nblocks tr
                 else sdcard_write_single_block cfg hw block tr);
     tr \<leftarrow> (if nblocks > 1 then map_option snd (sdcard_stop_transmission cfg hw tr)
            else Some tr);
     dma_done_poll hw MEM2BLOCK_DMA_DONE tr }"

function sdcard_write_loop ::
  "cfg \<Rightarrow> hw \<Rightarrow> 32 word \<Rightarrow> 32 word \<Rightarrow> 32 word \<Rightarrow> event list \<Rightarrow> event list option" where
  "sdcard_write_loop cfg hw block count buf tr =
     (if count \<noteq> 0 then
        (let nblocks = (if SDCARD_CMD25_SUPPORT cfg then count else 1)
         in case sdcard_write_chunk cfg hw block nblocks buf tr of
              None \<Rightarrow> None
            | Some tr1 \<Rightarrow>
                sdcard_write_loop cfg hw (block + nblocks) (count - nblocks)
                  (buf + 512 * nblocks) tr1)
      else Some tr)"
  by pat_completeness auto
termination
  by (relation "measure (\<lambda>(cfg, hw, block, count, buf, tr). unat count)")
     (auto simp: unat_minus_one unat_gt_0)

definition sdcard_write ::
  "cfg \<Rightarrow> hw \<Rightarrow> 32 word \<Rightarrow> 32 word \<Rightarrow> 32 word \<Rightarrow> event list \<Rightarrow> event list option" where
  "sdcard_write cfg hw block count buf tr = sdcard_write_loop cfg hw block count buf tr"

section \<open>SDCard FatFs disk functions\<close>

text \<open>
  The driver state: the static \<^verbatim>\<open>sdcardstatus\<close> and the events so far.
\<close>

record driver =
  sdcardstatus :: "8 word"
  events :: "event list"

text \<open>\<^verbatim>\<open>static DSTATUS sdcardstatus = STA_NOINIT;\<close>\<close>

definition driver_start :: "cfg \<Rightarrow> driver" where
  "driver_start cfg = \<lparr>sdcardstatus = STA_NOINIT cfg, events = []\<rparr>"

definition sd_disk_status :: "cfg \<Rightarrow> 8 word \<Rightarrow> driver \<Rightarrow> 8 word" where
  "sd_disk_status cfg drv d = (if drv \<noteq> 0 then STA_NOINIT cfg else sdcardstatus d)"

definition sd_disk_initialize ::
  "cfg \<Rightarrow> hw \<Rightarrow> 8 word \<Rightarrow> driver \<Rightarrow> (8 word \<times> driver) option" where
  "sd_disk_initialize cfg hw drv d =
     (if drv \<noteq> 0 then Some (STA_NOINIT cfg, d)
      else if sdcardstatus d \<noteq> 0 then
        (case sdcard_init cfg hw (events d) of
           None \<Rightarrow> None
         | Some (r, tr) \<Rightarrow>
             let d1 = d\<lparr>sdcardstatus := (if r \<noteq> 0 then 0 else STA_NOINIT cfg), events := tr\<rparr>
             in Some (sdcardstatus d1, d1))
      else Some (sdcardstatus d, d))"

section \<open>Reading the event list\<close>

text \<open>
  The events a call has added to the list it was given.
\<close>

definition new_events :: "event list \<Rightarrow> event list \<Rightarrow> event list" where
  "new_events tr tr' = drop (length tr) tr'"

text \<open>
  Kinds of events: the polls of the command engine (a read of the command event
  register, a delay), the polls of the data phase, register writes, the write of the
  command register for opcode \<open>k\<close>, a read of a given register.
\<close>

fun is_cmd_poll :: "event \<Rightarrow> bool" where
  "is_cmd_poll (Rd r v) = (r = CMD_EVENT)"
| "is_cmd_poll (Busy_wait_us n) = True"
| "is_cmd_poll _ = False"

fun is_data_poll :: "event \<Rightarrow> bool" where
  "is_data_poll (Rd r v) = (r = DATA_EVENT)"
| "is_data_poll (Busy_wait_us n) = True"
| "is_data_poll _ = False"

fun is_write :: "event \<Rightarrow> bool" where
  "is_write (Wr r v) = True"
| "is_write (Wr64 r v) = True"
| "is_write _ = False"

fun is_command :: "32 word \<Rightarrow> event \<Rightarrow> bool" where
  "is_command k (Wr r v) = (r = CMD_COMMAND \<and> drop_bit 8 v = k)"
| "is_command k _ = False"

fun is_read_of :: "reg \<Rightarrow> event \<Rightarrow> bool" where
  "is_read_of r (Rd r' v) = (r' = r)"
| "is_read_of r _ = False"

text \<open>An access to the command engine that is not the command write of another opcode.\<close>

fun cmd_ev_of :: "32 word \<Rightarrow> event \<Rightarrow> bool" where
  "cmd_ev_of k (Wr r v) =
     (r = CMD_ARGUMENT \<or> r = CMD_SEND \<or> (r = CMD_COMMAND \<and> drop_bit 8 v = k))"
| "cmd_ev_of k (Rd r v) = (r = CMD_EVENT)"
| "cmd_ev_of k (Busy_wait_us n) = True"
| "cmd_ev_of k _ = False"

text \<open>The values written to a register, and the opcodes of the commands sent, in order.\<close>

fun written :: "reg \<Rightarrow> event \<Rightarrow> 32 word list" where
  "written r (Wr r' v) = (if r' = r then [v] else [])"
| "written r _ = []"

definition writes_to :: "reg \<Rightarrow> event list \<Rightarrow> 32 word list" where
  "writes_to r evs = concat (map (written r) evs)"

definition opcodes :: "event list \<Rightarrow> 32 word list" where
  "opcodes evs = map (drop_bit 8) (writes_to CMD_COMMAND evs)"

definition writes :: "event list \<Rightarrow> event list" where
  "writes evs = filter is_write evs"

text \<open>The three register writes that send one command.\<close>

definition cmd_writes :: "32 word \<Rightarrow> 8 word \<Rightarrow> 8 word \<Rightarrow> event list" where
  "cmd_writes arg cmd rsp =
     [Wr CMD_ARGUMENT arg, Wr CMD_COMMAND (push_bit 8 (ucast cmd) OR ucast rsp), Wr CMD_SEND 1]"

text \<open>
  The events of one command sent once (the three writes, then polls), of a command
  sent one or more times, of a wait for the data phase and of a poll of a DMA done flag.
\<close>

definition command_evs :: "32 word \<Rightarrow> 8 word \<Rightarrow> 8 word \<Rightarrow> event list \<Rightarrow> bool" where
  "command_evs arg cmd rsp evs \<longleftrightarrow>
     take 3 evs = cmd_writes arg cmd rsp \<and> drop 3 evs \<noteq> [] \<and> list_all is_cmd_poll (drop 3 evs)"

definition retried_command_evs :: "32 word \<Rightarrow> 8 word \<Rightarrow> 8 word \<Rightarrow> event list \<Rightarrow> bool" where
  "retried_command_evs arg cmd rsp evs \<longleftrightarrow>
     take 3 evs = cmd_writes arg cmd rsp \<and> list_all (cmd_ev_of (ucast cmd)) evs"

definition data_wait_evs :: "event list \<Rightarrow> bool" where
  "data_wait_evs evs \<longleftrightarrow> list_all is_data_poll evs \<and> list_ex (is_read_of DATA_EVENT) evs"

fun has_done_bit :: "event \<Rightarrow> bool" where
  "has_done_bit (Rd r v) = (v AND 1 \<noteq> 0)"
| "has_done_bit _ = False"

definition dma_poll_evs :: "reg \<Rightarrow> event list \<Rightarrow> bool" where
  "dma_poll_evs r evs \<longleftrightarrow>
     evs \<noteq> [] \<and> list_all (is_read_of r) evs
     \<and> has_done_bit (last evs) \<and> \<not> list_ex has_done_bit (butlast evs)"

text \<open>
  The result \<^verbatim>\<open>sdcard_wait_cmd_done\<close> reads off the last value of the command event
  register: timeout when bit 2 is set, else CRC error when bit 3 is set, else ok.
\<close>

definition event_result :: "32 word \<Rightarrow> sd_result" where
  "event_result ev =
     (if ev AND 4 \<noteq> 0 then SD_TIMEOUT else if ev AND 8 \<noteq> 0 then SD_CRCERROR else SD_OK)"

text \<open>
  The events of one attempt at a command with result \<open>r\<close>: the three writes, polls that
  find bit 0 clear, and a last poll that finds bit 0 set and gives \<open>r\<close>. The events of a
  command sent until it reports \<^verbatim>\<open>SD_OK\<close>: attempts with another result, each followed by
  the next attempt, and a last attempt with result \<^verbatim>\<open>SD_OK\<close>.
\<close>

definition attempt_evs :: "32 word \<Rightarrow> 8 word \<Rightarrow> 8 word \<Rightarrow> sd_result \<Rightarrow> event list \<Rightarrow> bool" where
  "attempt_evs arg cmd rsp r evs \<longleftrightarrow>
     (\<exists>polls ev. evs = cmd_writes arg cmd rsp @ polls @ [Rd CMD_EVENT ev, Busy_wait_us 10]
        \<and> list_all is_cmd_poll polls \<and> \<not> list_ex has_done_bit polls
        \<and> ev AND 1 \<noteq> 0 \<and> r = event_result ev)"

definition sent_until_ok :: "32 word \<Rightarrow> 8 word \<Rightarrow> 8 word \<Rightarrow> event list \<Rightarrow> bool" where
  "sent_until_ok arg cmd rsp evs \<longleftrightarrow>
     (\<exists>fails ok. evs = concat fails @ ok
        \<and> list_all (\<lambda>a. \<exists>r. r \<noteq> SD_OK \<and> attempt_evs arg cmd rsp r a) fails
        \<and> attempt_evs arg cmd rsp SD_OK ok)"

text \<open>
  The response kind the data-bearing commands pass to \<^verbatim>\<open>sdcard_send_command\<close>:
  \<^verbatim>\<open>(dir << 5) | SDCARD_CTRL_RESPONSE_SHORT\<close>, cut to the \<^verbatim>\<open>uint8_t\<close> parameter.
\<close>

definition data_rsp :: "cfg \<Rightarrow> 32 word \<Rightarrow> 8 word" where
  "data_rsp cfg dir = ucast (push_bit 5 dir OR SDCARD_CTRL_RESPONSE_SHORT cfg)"

text \<open>The four register writes that set up a DMA engine for a chunk.\<close>

definition dma_setup :: "reg \<Rightarrow> reg \<Rightarrow> reg \<Rightarrow> 32 word \<Rightarrow> 32 word \<Rightarrow> event list" where
  "dma_setup enable base len buf nblocks =
     [Wr enable 0, Wr64 base (ucast buf), Wr len (512 * nblocks), Wr enable 1]"

text \<open>
  Order of events: \<open>precedes P Q evs\<close> says that a \<open>P\<close> event and a \<open>Q\<close> event occur
  and no \<open>Q\<close> event occurs before the first \<open>P\<close> event; \<open>all_before Q P evs\<close> says that
  both occur and no \<open>Q\<close> event occurs at or after the first \<open>P\<close> event.
\<close>

definition precedes :: "(event \<Rightarrow> bool) \<Rightarrow> (event \<Rightarrow> bool) \<Rightarrow> event list \<Rightarrow> bool" where
  "precedes P Q evs \<longleftrightarrow>
     list_ex P evs \<and> list_ex Q evs \<and> \<not> list_ex Q (takeWhile (\<lambda>e. \<not> P e) evs)"

definition all_before :: "(event \<Rightarrow> bool) \<Rightarrow> (event \<Rightarrow> bool) \<Rightarrow> event list \<Rightarrow> bool" where
  "all_before Q P evs \<longleftrightarrow>
     list_ex Q evs \<and> list_ex P evs \<and> \<not> list_ex Q (dropWhile (\<lambda>e. \<not> P e) evs)"

text \<open>
  The trace after one more unsuccessful poll of the command event register, and of the
  data event register.
\<close>

definition cmd_poll_step :: "hw \<Rightarrow> event list \<Rightarrow> event list" where
  "cmd_poll_step hw tr = busy_wait_us 10 (snd (csr_read hw CMD_EVENT tr))"

definition data_poll_step :: "hw \<Rightarrow> event list \<Rightarrow> event list" where
  "data_poll_step hw tr = busy_wait_us 10 (snd (csr_read hw DATA_EVENT tr))"

section \<open>Sample configuration and hardware\<close>

text \<open>
  A configuration with the switches as \<^verbatim>\<open>sdcard.c\<close> sets them (multi-block read and
  write on, \<^verbatim>\<open>SET_BLOCK_COUNT\<close> off), a 100 MHz system clock and sample values for the
  constants of the missing headers.
\<close>

definition litex_cfg :: cfg where
  "litex_cfg = \<lparr>
     CONFIG_CLOCK_FREQUENCY = 100000000,
     CONFIG_CPU_HAS_DMA_BUS = False,
     SDCARD_CMD18_SUPPORT = True,
     SDCARD_CMD23_SUPPORT = False,
     SDCARD_CMD25_SUPPORT = True,
     SDCARD_CTRL_RESPONSE_NONE = 0,
     SDCARD_CTRL_RESPONSE_SHORT = 1,
     SDCARD_CTRL_RESPONSE_LONG = 2,
     SDCARD_CTRL_RESPONSE_SHORT_BUSY = 3,
     SDCARD_CTRL_DATA_TRANSFER_READ = 1,
     SDCARD_CTRL_DATA_TRANSFER_WRITE = 2,
     SD_PHY_SPEED_4X = 1,
     SD_SWITCH_SWITCH = 1,
     SD_GROUP_ACCESSMODE = 0,
     SD_SPEED_SDR25 = 1,
     STA_NOINIT = 1 \<rparr>"

text \<open>
  Hardware that completes every command, data phase and DMA transfer at the first poll,
  without error, and answers with bit 31 set in every response word.
\<close>

definition hw_ok :: hw where
  "hw_ok tr r = (case r of CMD_RESPONSE n \<Rightarrow> 0x80000000 | _ \<Rightarrow> 1)"

text \<open>Hardware that never sets bit 0 of the command event register.\<close>

definition hw_never_done :: hw where
  "hw_never_done tr r = 0"

text \<open>Hardware that completes every command with the timeout flag (no card).\<close>

definition hw_cmd_timeout :: hw where
  "hw_cmd_timeout tr r = 5"

text \<open>
  Hardware that shows a command still running at the first poll after it is sent and
  a timeout at the next one.
\<close>

definition hw_late :: hw where
  "hw_late tr r = (if tr \<noteq> [] \<and> last tr = Wr CMD_SEND 1 then 0 else 5)"

text \<open>
  Hardware that reports a CRC error for the first command sent and completes
  everything after that without error.
\<close>

definition hw_crc_once :: hw where
  "hw_crc_once tr r = (if r = CMD_EVENT \<and> length (writes_to CMD_SEND tr) = 1 then 9 else 1)"

text \<open>
  The events of \<^verbatim>\<open>sdcard_read(0, 2, 0)\<close> and of \<^verbatim>\<open>sdcard_write(0, 4, 0)\<close> on that
  hardware, with the sample configuration.
\<close>

definition read_0_2_events :: "event list" where
  "read_0_2_events =
     [Wr BLOCK2MEM_DMA_ENABLE 0, Wr64 BLOCK2MEM_DMA_BASE 0, Wr BLOCK2MEM_DMA_LENGTH 1024,
      Wr BLOCK2MEM_DMA_ENABLE 1,
      Wr BLOCK_LENGTH 512, Wr BLOCK_COUNT 2,
      Wr CMD_ARGUMENT 0, Wr CMD_COMMAND 4641, Wr CMD_SEND 1, Rd CMD_EVENT 1, Busy_wait_us 10,
      Rd DATA_EVENT 1,
      Rd BLOCK2MEM_DMA_DONE 1,
      Wr CMD_ARGUMENT 0, Wr CMD_COMMAND 3075, Wr CMD_SEND 1, Rd CMD_EVENT 1, Busy_wait_us 10,
      Flush_cpu_dcache, Flush_l2_cache]"

definition write_0_4_events :: "event list" where
  "write_0_4_events =
     [Wr MEM2BLOCK_DMA_ENABLE 0, Wr64 MEM2BLOCK_DMA_BASE 0, Wr MEM2BLOCK_DMA_LENGTH 2048,
      Wr MEM2BLOCK_DMA_ENABLE 1,
      Wr BLOCK_LENGTH 512, Wr BLOCK_COUNT 4,
      Wr CMD_ARGUMENT 0, Wr CMD_COMMAND 6465, Wr CMD_SEND 1, Rd CMD_EVENT 1, Busy_wait_us 10,
      Wr CMD_ARGUMENT 0, Wr CMD_COMMAND 3075, Wr CMD_SEND 1, Rd CMD_EVENT 1, Busy_wait_us 10,
      Rd MEM2BLOCK_DMA_DONE 1]"

text \<open>
  The events of \<^verbatim>\<open>sdcard_write(0, 1, 0)\<close> on the hardware that completes at once, and of
  the two write commands for block 0 (one block, four blocks) up to the end of the first
  attempt, on that hardware and on the hardware that reports a CRC error first.
\<close>

definition write_0_1_events :: "event list" where
  "write_0_1_events =
     [Wr MEM2BLOCK_DMA_ENABLE 0, Wr64 MEM2BLOCK_DMA_BASE 0, Wr MEM2BLOCK_DMA_LENGTH 512,
      Wr MEM2BLOCK_DMA_ENABLE 1,
      Wr BLOCK_LENGTH 512, Wr BLOCK_COUNT 1,
      Wr CMD_ARGUMENT 0, Wr CMD_COMMAND 6209, Wr CMD_SEND 1, Rd CMD_EVENT 1, Busy_wait_us 10,
      Rd MEM2BLOCK_DMA_DONE 1]"

definition write_single_ok_events :: "event list" where
  "write_single_ok_events =
     [Wr BLOCK_LENGTH 512, Wr BLOCK_COUNT 1,
      Wr CMD_ARGUMENT 0, Wr CMD_COMMAND 6209, Wr CMD_SEND 1, Rd CMD_EVENT 1, Busy_wait_us 10]"

definition write_multiple_ok_events :: "event list" where
  "write_multiple_ok_events =
     [Wr BLOCK_LENGTH 512, Wr BLOCK_COUNT 4,
      Wr CMD_ARGUMENT 0, Wr CMD_COMMAND 6465, Wr CMD_SEND 1, Rd CMD_EVENT 1, Busy_wait_us 10]"

definition write_single_crc_events :: "event list" where
  "write_single_crc_events =
     [Wr BLOCK_LENGTH 512, Wr BLOCK_COUNT 1,
      Wr CMD_ARGUMENT 0, Wr CMD_COMMAND 6209, Wr CMD_SEND 1, Rd CMD_EVENT 9, Busy_wait_us 10]"

definition write_multiple_crc_events :: "event list" where
  "write_multiple_crc_events =
     [Wr BLOCK_LENGTH 512, Wr BLOCK_COUNT 4,
      Wr CMD_ARGUMENT 0, Wr CMD_COMMAND 6465, Wr CMD_SEND 1, Rd CMD_EVENT 9, Busy_wait_us 10]"

text \<open>
  The events of the two read commands and of the write command for more than one block,
  for block 0 (one block, two blocks), on the hardware that completes at once.
\<close>

definition read_single_run :: "event list" where
  "read_single_run =
     [Wr BLOCK_LENGTH 512, Wr BLOCK_COUNT 1, Wr CMD_ARGUMENT 0, Wr CMD_COMMAND 4385,
      Wr CMD_SEND 1, Rd CMD_EVENT 1, Busy_wait_us 10, Rd DATA_EVENT 1]"

definition read_multiple_run :: "event list" where
  "read_multiple_run =
     [Wr BLOCK_LENGTH 512, Wr BLOCK_COUNT 2, Wr CMD_ARGUMENT 0, Wr CMD_COMMAND 4641,
      Wr CMD_SEND 1, Rd CMD_EVENT 1, Busy_wait_us 10, Rd DATA_EVENT 1]"

definition write_multiple_run :: "event list" where
  "write_multiple_run =
     [Wr BLOCK_LENGTH 512, Wr BLOCK_COUNT 2, Wr CMD_ARGUMENT 0, Wr CMD_COMMAND 6465,
      Wr CMD_SEND 1, Rd CMD_EVENT 1, Busy_wait_us 10]"

text \<open>
  Hardware on which every poll finds the work done: each read of the command event
  register has the done flag set and neither error flag, each read of the data event
  register and of the two DMA done registers has bit 0 set.
\<close>

definition completes_ok :: "hw \<Rightarrow> bool" where
  "completes_ok hw \<longleftrightarrow>
     (\<forall>tr. hw tr CMD_EVENT AND 1 \<noteq> 0 \<and> hw tr CMD_EVENT AND 4 = 0 \<and> hw tr CMD_EVENT AND 8 = 0
         \<and> hw tr DATA_EVENT AND 1 \<noteq> 0
         \<and> hw tr BLOCK2MEM_DMA_DONE AND 1 \<noteq> 0 \<and> hw tr MEM2BLOCK_DMA_DONE AND 1 \<noteq> 0)"

definition read_100_10_events :: "event list" where
  "read_100_10_events =
     [Wr BLOCK2MEM_DMA_ENABLE 0, Wr64 BLOCK2MEM_DMA_BASE 0, Wr BLOCK2MEM_DMA_LENGTH 5120,
      Wr BLOCK2MEM_DMA_ENABLE 1,
      Wr BLOCK_LENGTH 512, Wr BLOCK_COUNT 10,
      Wr CMD_ARGUMENT 100, Wr CMD_COMMAND 4641, Wr CMD_SEND 1, Rd CMD_EVENT 1, Busy_wait_us 10,
      Rd DATA_EVENT 1,
      Rd BLOCK2MEM_DMA_DONE 1,
      Wr CMD_ARGUMENT 0, Wr CMD_COMMAND 3075, Wr CMD_SEND 1, Rd CMD_EVENT 1, Busy_wait_us 10,
      Flush_cpu_dcache, Flush_l2_cache]"

section \<open>The register writes of a bring-up\<close>

text \<open>
  The divider \<^verbatim>\<open>sdcard_set_clk_freq\<close> writes, the argument \<^verbatim>\<open>sdcard_switch\<close> builds, the
  writes of one pass of each of the two bounded loops of \<^verbatim>\<open>sdcard_init\<close>, and the whole
  sequence of register writes of a bring-up that goes through: \<open>i\<close> passes of the idle
  loop, \<open>j\<close> passes of the operating-condition loop, \<open>SWITCH_FUNC\<close> sent \<open>k\<close> times and
  \<open>APP_SEND_SCR\<close> sent \<open>m\<close> times, for the relative card address \<open>rca\<close>.
\<close>

definition clk_divider :: "cfg \<Rightarrow> 32 word \<Rightarrow> 32 word" where
  "clk_divider cfg clk_freq =
     min (max (if clk_freq \<noteq> 0 then DIV_ROUND_UP (CONFIG_CLOCK_FREQUENCY cfg) clk_freq
               else 256) 2) 256"

definition switch_arg :: "32 word \<Rightarrow> 32 word \<Rightarrow> 32 word \<Rightarrow> 32 word" where
  "switch_arg mode grp val =
     ((push_bit 31 mode OR 0xffffff) AND NOT (push_bit (unat (grp * 4)) 0xf))
       OR push_bit (unat (grp * 4)) val"

definition idle_attempt :: "cfg \<Rightarrow> event list" where
  "idle_attempt cfg =
     Wr PHY_INIT_INITIALIZE 1 # cmd_writes 0 0 (ucast (SDCARD_CTRL_RESPONSE_NONE cfg))"

definition op_cond_attempt :: "cfg \<Rightarrow> event list" where
  "op_cond_attempt cfg =
     cmd_writes 0 55 (ucast (SDCARD_CTRL_RESPONSE_SHORT cfg))
     @ cmd_writes 0x70ff8000 41 (ucast (SDCARD_CTRL_RESPONSE_SHORT_BUSY cfg))"

definition init_writes :: "cfg \<Rightarrow> nat \<Rightarrow> nat \<Rightarrow> nat \<Rightarrow> nat \<Rightarrow> 16 word \<Rightarrow> event list" where
  "init_writes cfg i j k m rca =
     [Wr PHY_CLOCKER_DIVIDER (clk_divider cfg SDCARD_CLK_FREQ_INIT)]
     @ concat (replicate i (idle_attempt cfg))
     @ cmd_writes 0x1aa 8 (ucast (SDCARD_CTRL_RESPONSE_SHORT cfg))
     @ [Wr PHY_CLOCKER_DIVIDER (clk_divider cfg SDCARD_CLK_FREQ)]
     @ concat (replicate j (op_cond_attempt cfg))
     @ cmd_writes 0 2 (ucast (SDCARD_CTRL_RESPONSE_LONG cfg))
     @ cmd_writes 0 3 (ucast (SDCARD_CTRL_RESPONSE_SHORT cfg))
     @ cmd_writes (push_bit 16 (ucast rca)) 10 (ucast (SDCARD_CTRL_RESPONSE_LONG cfg))
     @ cmd_writes (push_bit 16 (ucast rca)) 9 (ucast (SDCARD_CTRL_RESPONSE_LONG cfg))
     @ cmd_writes (push_bit 16 (ucast rca)) 7 (ucast (SDCARD_CTRL_RESPONSE_SHORT_BUSY cfg))
     @ cmd_writes (push_bit 16 (ucast rca)) 55 (ucast (SDCARD_CTRL_RESPONSE_SHORT cfg))
     @ cmd_writes 2 6 (ucast (SDCARD_CTRL_RESPONSE_SHORT cfg))
     @ [Wr PHY_SETTINGS (SD_PHY_SPEED_4X cfg)]
     @ [Wr BLOCK_LENGTH 64, Wr BLOCK_COUNT 1]
     @ concat (replicate k
         (cmd_writes (switch_arg (SD_SWITCH_SWITCH cfg) (SD_GROUP_ACCESSMODE cfg)
                        (SD_SPEED_SDR25 cfg)) 6
            (data_rsp cfg (SDCARD_CTRL_DATA_TRANSFER_READ cfg))))
     @ cmd_writes (push_bit 16 (ucast rca)) 55 (ucast (SDCARD_CTRL_RESPONSE_SHORT cfg))
     @ [Wr BLOCK_LENGTH 8, Wr BLOCK_COUNT 1]
     @ concat (replicate m (cmd_writes 0 51 (data_rsp cfg (SDCARD_CTRL_DATA_TRANSFER_READ cfg))))
     @ cmd_writes 512 16 (ucast (SDCARD_CTRL_RESPONSE_SHORT cfg))"

text \<open>
  The first \<open>n\<close> passes of the idle loop of \<^verbatim>\<open>sdcard_init\<close>, entered with the events
  \<open>tr\<close>, each find \<^verbatim>\<open>sdcard_go_idle\<close> returning a result other than \<^verbatim>\<open>SD_OK\<close>.
\<close>

fun go_idle_fails :: "cfg \<Rightarrow> hw \<Rightarrow> nat \<Rightarrow> event list \<Rightarrow> bool" where
  "go_idle_fails cfg hw 0 tr = True"
| "go_idle_fails cfg hw (Suc n) tr =
     (case sdcard_go_idle cfg hw (busy_wait 1 (csr_write PHY_INIT_INITIALIZE 1 tr)) of
        None \<Rightarrow> False
      | Some (r, tr') \<Rightarrow> r \<noteq> SD_OK \<and> go_idle_fails cfg hw n (busy_wait 1 tr'))"

text \<open>
  A card that does not answer \<^verbatim>\<open>SEND_EXT_CSD\<close>: the command event register shows a
  timeout when the last command sent has opcode 8, and done without error otherwise.
\<close>

definition hw_legacy :: hw where
  "hw_legacy tr r =
     (if r = CMD_EVENT \<and> (case rev (opcodes tr) of [] \<Rightarrow> False | k # ks \<Rightarrow> k = 8)
      then 5 else 1)"

text \<open>The events of \<^verbatim>\<open>sdcard_init\<close> on the two.\<close>

definition init_ok_events :: "event list" where
  "init_ok_events =
     [Wr PHY_CLOCKER_DIVIDER 250, Busy_wait 1, Wr PHY_INIT_INITIALIZE 1,
      Busy_wait 1, Wr CMD_ARGUMENT 0, Wr CMD_COMMAND 0, Wr CMD_SEND 1,
      Rd CMD_EVENT 1, Busy_wait_us 10, Wr CMD_ARGUMENT 426,
      Wr CMD_COMMAND 2049, Wr CMD_SEND 1, Rd CMD_EVENT 1, Busy_wait_us 10,
      Wr PHY_CLOCKER_DIVIDER 4, Busy_wait 1, Wr CMD_ARGUMENT 0,
      Wr CMD_COMMAND 14081, Wr CMD_SEND 1, Rd CMD_EVENT 1, Busy_wait_us 10,
      Wr CMD_ARGUMENT 1895792640, Wr CMD_COMMAND 10499, Wr CMD_SEND 1,
      Rd CMD_EVENT 1, Busy_wait_us 10, Rd (CMD_RESPONSE 0) 2147483648,
      Rd (CMD_RESPONSE 1) 2147483648, Rd (CMD_RESPONSE 2) 2147483648,
      Rd (CMD_RESPONSE 3) 2147483648, Wr CMD_ARGUMENT 0,
      Wr CMD_COMMAND 514, Wr CMD_SEND 1, Rd CMD_EVENT 1, Busy_wait_us 10,
      Wr CMD_ARGUMENT 0, Wr CMD_COMMAND 769, Wr CMD_SEND 1, Rd CMD_EVENT 1,
      Busy_wait_us 10, Rd (CMD_RESPONSE 0) 2147483648,
      Rd (CMD_RESPONSE 1) 2147483648, Rd (CMD_RESPONSE 2) 2147483648,
      Rd (CMD_RESPONSE 3) 2147483648, Wr CMD_ARGUMENT 2147483648,
      Wr CMD_COMMAND 2562, Wr CMD_SEND 1, Rd CMD_EVENT 1, Busy_wait_us 10,
      Wr CMD_ARGUMENT 2147483648, Wr CMD_COMMAND 2306, Wr CMD_SEND 1,
      Rd CMD_EVENT 1, Busy_wait_us 10, Wr CMD_ARGUMENT 2147483648,
      Wr CMD_COMMAND 1795, Wr CMD_SEND 1, Rd CMD_EVENT 1, Busy_wait_us 10,
      Wr CMD_ARGUMENT 2147483648, Wr CMD_COMMAND 14081, Wr CMD_SEND 1,
      Rd CMD_EVENT 1, Busy_wait_us 10, Wr CMD_ARGUMENT 2,
      Wr CMD_COMMAND 1537, Wr CMD_SEND 1, Rd CMD_EVENT 1, Busy_wait_us 10,
      Wr PHY_SETTINGS 1, Wr BLOCK_LENGTH 64, Wr BLOCK_COUNT 1,
      Wr CMD_ARGUMENT 2164260849, Wr CMD_COMMAND 1569, Wr CMD_SEND 1,
      Rd CMD_EVENT 1, Busy_wait_us 10, Rd DATA_EVENT 1,
      Wr CMD_ARGUMENT 2147483648, Wr CMD_COMMAND 14081, Wr CMD_SEND 1,
      Rd CMD_EVENT 1, Busy_wait_us 10, Wr BLOCK_LENGTH 8, Wr BLOCK_COUNT 1,
      Wr CMD_ARGUMENT 0, Wr CMD_COMMAND 13089, Wr CMD_SEND 1,
      Rd CMD_EVENT 1, Busy_wait_us 10, Rd DATA_EVENT 1,
      Wr CMD_ARGUMENT 512, Wr CMD_COMMAND 4097, Wr CMD_SEND 1,
      Rd CMD_EVENT 1, Busy_wait_us 10]"

definition init_legacy_events :: "event list" where
  "init_legacy_events =
     [Wr PHY_CLOCKER_DIVIDER 250, Busy_wait 1, Wr PHY_INIT_INITIALIZE 1,
      Busy_wait 1, Wr CMD_ARGUMENT 0, Wr CMD_COMMAND 0, Wr CMD_SEND 1,
      Rd CMD_EVENT 1, Busy_wait_us 10, Wr CMD_ARGUMENT 426,
      Wr CMD_COMMAND 2049, Wr CMD_SEND 1, Rd CMD_EVENT 5, Busy_wait_us 10]"

declare sdcard_read_loop.simps [simp del]
declare sdcard_write_loop.simps [simp del]
declare sdcard_init_idle_loop.simps [simp del]
declare sdcard_init_op_cond_loop.simps [simp del]

section \<open>Facts about event lists\<close>

lemma new_events_append: "new_events tr (tr @ evs) = evs"
  by (simp add: new_events_def)

lemma writes_to_append: "writes_to r (xs @ ys) = writes_to r xs @ writes_to r ys"
  by (simp add: writes_to_def)

lemma writes_to_Nil: "writes_to r [] = []"
  by (simp add: writes_to_def)

lemma writes_to_Cons: "writes_to r (e # evs) = written r e @ writes_to r evs"
  by (simp add: writes_to_def)

lemma opcodes_append: "opcodes (xs @ ys) = opcodes xs @ opcodes ys"
  by (simp add: opcodes_def writes_to_append)

lemma writes_append: "writes (xs @ ys) = writes xs @ writes ys"
  by (simp add: writes_def)

lemma is_cmd_poll_not_write: "is_cmd_poll e \<Longrightarrow> \<not> is_write e"
  by (cases e) auto

lemma is_data_poll_not_write: "is_data_poll e \<Longrightarrow> \<not> is_write e"
  by (cases e) auto

lemma is_read_of_not_write: "is_read_of r e \<Longrightarrow> \<not> is_write e"
  by (cases e) auto

lemma is_cmd_poll_cmd_ev_of: "is_cmd_poll e \<Longrightarrow> cmd_ev_of k e"
  by (cases e) auto

lemma writes_cmd_polls: "list_all is_cmd_poll evs \<Longrightarrow> writes evs = []"
  by (induction evs) (auto simp: writes_def is_cmd_poll_not_write)

lemma writes_data_polls: "list_all is_data_poll evs \<Longrightarrow> writes evs = []"
  by (induction evs) (auto simp: writes_def is_data_poll_not_write)

lemma writes_reads: "list_all (is_read_of r) evs \<Longrightarrow> writes evs = []"
  by (induction evs) (auto simp: writes_def is_read_of_not_write)

lemma writes_cmd_writes: "writes (cmd_writes arg cmd rsp) = cmd_writes arg cmd rsp"
  by (simp add: writes_def cmd_writes_def)

lemma opcode_of_command_word:
  "drop_bit 8 (push_bit 8 (ucast (cmd :: 8 word)) OR ucast (rsp :: 8 word) :: 32 word) = ucast cmd"
  by (rule bit_word_eqI) (auto simp: bit_simps dest: bit_imp_le_length)

lemma cmd_writes_cmd_ev_of: "list_all (cmd_ev_of (ucast cmd)) (cmd_writes arg cmd rsp)"
  using opcode_of_command_word[of cmd rsp] by (simp add: cmd_writes_def)

lemma command_evs_decompose:
  "command_evs arg cmd rsp evs \<Longrightarrow>
   \<exists>polls. evs = cmd_writes arg cmd rsp @ polls \<and> polls \<noteq> [] \<and> list_all is_cmd_poll polls"
proof -
  assume a: "command_evs arg cmd rsp evs"
  have "evs = take 3 evs @ drop 3 evs" by simp
  with a show ?thesis unfolding command_evs_def by metis
qed

lemma command_evs_retried:
  "command_evs arg cmd rsp evs \<Longrightarrow> retried_command_evs arg cmd rsp evs"
proof -
  assume a: "command_evs arg cmd rsp evs"
  from command_evs_decompose[OF a] obtain polls where
    e: "evs = cmd_writes arg cmd rsp @ polls" and p: "list_all is_cmd_poll polls" by blast
  from p have "list_all (cmd_ev_of (ucast cmd)) polls"
    by (rule list.pred_mono_strong) (rule is_cmd_poll_cmd_ev_of)
  with e a show ?thesis
    by (simp add: retried_command_evs_def command_evs_def cmd_writes_cmd_ev_of)
qed

lemma retried_command_evs_append:
  assumes "retried_command_evs arg cmd rsp xs" and "retried_command_evs arg cmd rsp ys"
  shows "retried_command_evs arg cmd rsp (xs @ ys)"
proof -
  from assms(1) have "length (take 3 xs) = 3"
    by (simp add: retried_command_evs_def cmd_writes_def)
  then have "3 \<le> length xs" by simp
  then have "take 3 (xs @ ys) = take 3 xs" by simp
  with assms show ?thesis by (simp add: retried_command_evs_def)
qed

section \<open>Unfolding the polling loops\<close>

lemma wait_cmd_done_poll_done:
  "hw tr CMD_EVENT AND 1 \<noteq> 0 \<Longrightarrow>
   sdcard_wait_cmd_done_poll hw tr =
     Some (hw tr CMD_EVENT, tr @ [Rd CMD_EVENT (hw tr CMD_EVENT), Busy_wait_us 10])"
  by (subst sdcard_wait_cmd_done_poll.simps) (simp add: csr_read_def busy_wait_us_def)

lemma wait_cmd_done_poll_again:
  "hw tr CMD_EVENT AND 1 = 0 \<Longrightarrow>
   sdcard_wait_cmd_done_poll hw tr =
     sdcard_wait_cmd_done_poll hw (tr @ [Rd CMD_EVENT (hw tr CMD_EVENT), Busy_wait_us 10])"
  by (subst sdcard_wait_cmd_done_poll.simps) (simp add: csr_read_def busy_wait_us_def)

lemma wait_data_done_poll_done:
  "hw tr DATA_EVENT AND 1 \<noteq> 0 \<Longrightarrow>
   sdcard_wait_data_done_poll hw tr =
     Some (hw tr DATA_EVENT, tr @ [Rd DATA_EVENT (hw tr DATA_EVENT)])"
  by (subst sdcard_wait_data_done_poll.simps) (simp add: csr_read_def)

lemma wait_data_done_poll_again:
  "hw tr DATA_EVENT AND 1 = 0 \<Longrightarrow>
   sdcard_wait_data_done_poll hw tr =
     sdcard_wait_data_done_poll hw (tr @ [Rd DATA_EVENT (hw tr DATA_EVENT), Busy_wait_us 10])"
  by (subst sdcard_wait_data_done_poll.simps) (simp add: csr_read_def busy_wait_us_def)

lemma dma_done_poll_done:
  "hw tr r AND 1 \<noteq> 0 \<Longrightarrow> dma_done_poll hw r tr = Some (tr @ [Rd r (hw tr r)])"
  by (subst dma_done_poll.simps) (simp add: csr_read_def)

lemma dma_done_poll_again:
  "hw tr r AND 1 = 0 \<Longrightarrow> dma_done_poll hw r tr = dma_done_poll hw r (tr @ [Rd r (hw tr r)])"
  by (subst dma_done_poll.simps) (simp add: csr_read_def)

lemma send_command_until_ok_done:
  "sdcard_send_command hw arg cmd rsp tr = Some (SD_OK, tr1) \<Longrightarrow>
   sdcard_send_command_until_ok hw arg cmd rsp tr = Some tr1"
  by (subst sdcard_send_command_until_ok.simps) simp

lemma send_command_until_ok_again:
  "sdcard_send_command hw arg cmd rsp tr = Some (r, tr1) \<Longrightarrow> r \<noteq> SD_OK \<Longrightarrow>
   sdcard_send_command_until_ok hw arg cmd rsp tr =
     sdcard_send_command_until_ok hw arg cmd rsp tr1"
  by (subst sdcard_send_command_until_ok.simps) simp

section \<open>What the polling loops add to the event list\<close>

lemma wait_cmd_done_poll_last:
  assumes "sdcard_wait_cmd_done_poll hw tr = Some y"
  shows "\<exists>evs. snd y = tr @ evs @ [Rd CMD_EVENT (fst y), Busy_wait_us 10]
           \<and> list_all is_cmd_poll evs \<and> fst y AND 1 \<noteq> 0"
  using assms
proof (induction rule: sdcard_wait_cmd_done_poll.raw_induct[rotated 1, consumes 1, case_names step])
  case (step f hw tr y)
  let ?p = "[Rd CMD_EVENT (hw tr CMD_EVENT), Busy_wait_us 10]"
  show ?case
  proof (cases "hw tr CMD_EVENT AND 1 \<noteq> 0")
    case True
    with step(2) have "snd y = tr @ [] @ [Rd CMD_EVENT (fst y), Busy_wait_us 10]"
      and "fst y AND 1 \<noteq> 0"
      by (auto simp: csr_read_def busy_wait_us_def)
    then show ?thesis by (intro exI[of _ "[]"]) simp
  next
    case False
    with step(2) have "f hw (tr @ ?p) = Some y"
      by (simp add: csr_read_def busy_wait_us_def)
    from step(1)[OF this] obtain evs where
      "snd y = (tr @ ?p) @ evs @ [Rd CMD_EVENT (fst y), Busy_wait_us 10]"
      "list_all is_cmd_poll evs" "fst y AND 1 \<noteq> 0"
      by blast
    then show ?thesis by (intro exI[of _ "?p @ evs"]) simp
  qed
qed

lemma wait_cmd_done_appends:
  assumes "sdcard_wait_cmd_done hw tr = Some (r, tr')"
  shows "\<exists>polls. tr' = tr @ polls \<and> polls \<noteq> [] \<and> list_all is_cmd_poll polls"
proof -
  from assms obtain y where y: "sdcard_wait_cmd_done_poll hw tr = Some y" and t: "tr' = snd y"
    by (auto simp: sdcard_wait_cmd_done_def split: option.splits if_splits)
  from wait_cmd_done_poll_last[OF y] obtain evs where
    "snd y = tr @ evs @ [Rd CMD_EVENT (fst y), Busy_wait_us 10]" "list_all is_cmd_poll evs"
    by blast
  with t show ?thesis
    by (intro exI[of _ "evs @ [Rd CMD_EVENT (fst y), Busy_wait_us 10]"]) simp
qed

lemma send_command_appends:
  assumes "sdcard_send_command hw arg cmd rsp tr = Some (r, tr')"
  shows "\<exists>evs. tr' = tr @ evs \<and> command_evs arg cmd rsp evs"
proof -
  from assms have "sdcard_wait_cmd_done hw (tr @ cmd_writes arg cmd rsp) = Some (r, tr')"
    by (simp add: sdcard_send_command_def csr_write_def cmd_writes_def)
  from wait_cmd_done_appends[OF this] obtain polls where
    "tr' = (tr @ cmd_writes arg cmd rsp) @ polls" "polls \<noteq> []" "list_all is_cmd_poll polls"
    by blast
  then show ?thesis
    by (intro exI[of _ "cmd_writes arg cmd rsp @ polls"])
       (simp add: command_evs_def cmd_writes_def)
qed

lemma send_command_until_ok_appends:
  assumes "sdcard_send_command_until_ok hw arg cmd rsp tr = Some tr'"
  shows "\<exists>evs n. tr' = tr @ evs \<and> retried_command_evs arg cmd rsp evs
           \<and> writes evs = concat (replicate (Suc n) (cmd_writes arg cmd rsp))"
  using assms
proof (induction rule: sdcard_send_command_until_ok.raw_induct
                         [rotated 1, consumes 1, case_names step])
  case (step f hw arg cmd rsp tr tr')
  from step(2) obtain r tr1 where s: "sdcard_send_command hw arg cmd rsp tr = Some (r, tr1)"
    by (auto split: option.splits)
  from send_command_appends[OF s] obtain e1 where
    e1: "tr1 = tr @ e1" "command_evs arg cmd rsp e1" by blast
  from command_evs_decompose[OF e1(2)] have w1: "writes e1 = cmd_writes arg cmd rsp"
    by (auto simp: writes_append writes_cmd_writes writes_cmd_polls)
  show ?case
  proof (cases "r = SD_OK")
    case True
    with step(2) s have "tr' = tr1" by simp
    with e1 w1 show ?thesis
      by (intro exI[of _ e1] exI[of _ 0]) (simp add: command_evs_retried)
  next
    case False
    with step(2) s have "f hw arg cmd rsp tr1 = Some tr'" by simp
    from step(1)[OF this] obtain e2 n where
      "tr' = tr1 @ e2" "retried_command_evs arg cmd rsp e2"
      "writes e2 = concat (replicate (Suc n) (cmd_writes arg cmd rsp))" by blast
    with e1 w1 show ?thesis
      by (intro exI[of _ "e1 @ e2"] exI[of _ "Suc n"])
         (simp add: retried_command_evs_append command_evs_retried writes_append)
  qed
qed

lemma wait_data_done_poll_last:
  assumes "sdcard_wait_data_done_poll hw tr = Some y"
  shows "\<exists>evs. snd y = tr @ evs @ [Rd DATA_EVENT (fst y)] \<and> list_all is_data_poll evs
           \<and> fst y AND 1 \<noteq> 0"
  using assms
proof (induction rule: sdcard_wait_data_done_poll.raw_induct
                         [rotated 1, consumes 1, case_names step])
  case (step f hw tr y)
  let ?v = "hw tr DATA_EVENT"
  show ?case
  proof (cases "?v AND 1 \<noteq> 0")
    case True
    with step(2) have "snd y = tr @ [] @ [Rd DATA_EVENT (fst y)]" "fst y AND 1 \<noteq> 0"
      by (auto simp: csr_read_def)
    then show ?thesis by (intro exI[of _ "[]"]) simp
  next
    case False
    with step(2) have "f hw (tr @ [Rd DATA_EVENT ?v, Busy_wait_us 10]) = Some y"
      by (simp add: csr_read_def busy_wait_us_def)
    from step(1)[OF this] obtain evs where
      "snd y = (tr @ [Rd DATA_EVENT ?v, Busy_wait_us 10]) @ evs @ [Rd DATA_EVENT (fst y)]"
      "list_all is_data_poll evs" "fst y AND 1 \<noteq> 0"
      by blast
    then show ?thesis
      by (intro exI[of _ "[Rd DATA_EVENT ?v, Busy_wait_us 10] @ evs"]) simp
  qed
qed

lemma wait_data_done_appends:
  assumes "sdcard_wait_data_done hw tr = Some (r, tr')"
  shows "\<exists>evs. tr' = tr @ evs \<and> data_wait_evs evs"
proof -
  from assms obtain y where y: "sdcard_wait_data_done_poll hw tr = Some y" and t: "tr' = snd y"
    by (auto simp: sdcard_wait_data_done_def split: option.splits if_splits)
  from wait_data_done_poll_last[OF y] obtain evs where
    "snd y = tr @ evs @ [Rd DATA_EVENT (fst y)]" "list_all is_data_poll evs" by blast
  with t show ?thesis
    by (intro exI[of _ "evs @ [Rd DATA_EVENT (fst y)]"]) (simp add: data_wait_evs_def)
qed

lemma dma_done_poll_appends:
  assumes "dma_done_poll hw r tr = Some tr'"
  shows "\<exists>evs. tr' = tr @ evs \<and> dma_poll_evs r evs"
  using assms
proof (induction rule: dma_done_poll.raw_induct[rotated 1, consumes 1, case_names step])
  case (step f hw r tr tr')
  let ?v = "hw tr r"
  show ?case
  proof (cases "?v AND 1 = 0")
    case False
    with step(2) have "tr' = tr @ [Rd r ?v]"
      by (auto simp: csr_read_def)
    with False show ?thesis by (intro exI[of _ "[Rd r ?v]"]) (simp add: dma_poll_evs_def)
  next
    case True
    with step(2) have "f hw r (tr @ [Rd r ?v]) = Some tr'"
      by (simp add: csr_read_def)
    from step(1)[OF this] obtain evs where
      "tr' = (tr @ [Rd r ?v]) @ evs" "dma_poll_evs r evs"
      by blast
    with True show ?thesis
      by (intro exI[of _ "[Rd r ?v] @ evs"]) (simp add: dma_poll_evs_def)
  qed
qed

section \<open>When the polling loops return\<close>

lemma wait_cmd_done_poll_returns:
  "hw ((cmd_poll_step hw ^^ n) tr) CMD_EVENT AND 1 \<noteq> 0 \<Longrightarrow>
   \<exists>y. sdcard_wait_cmd_done_poll hw tr = Some y"
proof (induction n arbitrary: tr)
  case 0
  then show ?case by (simp add: wait_cmd_done_poll_done)
next
  case (Suc n)
  show ?case
  proof (cases "hw tr CMD_EVENT AND 1 = 0")
    case False
    then show ?thesis by (simp add: wait_cmd_done_poll_done)
  next
    case True
    from Suc.prems
    have "hw ((cmd_poll_step hw ^^ n) (cmd_poll_step hw tr)) CMD_EVENT AND 1 \<noteq> 0"
      by (simp add: funpow_swap1)
    from Suc.IH[OF this] show ?thesis
      using True
      by (simp add: wait_cmd_done_poll_again cmd_poll_step_def csr_read_def busy_wait_us_def)
  qed
qed

lemma wait_data_done_poll_returns:
  "hw ((data_poll_step hw ^^ n) tr) DATA_EVENT AND 1 \<noteq> 0 \<Longrightarrow>
   \<exists>y. sdcard_wait_data_done_poll hw tr = Some y"
proof (induction n arbitrary: tr)
  case 0
  then show ?case by (simp add: wait_data_done_poll_done)
next
  case (Suc n)
  show ?case
  proof (cases "hw tr DATA_EVENT AND 1 = 0")
    case False
    then show ?thesis by (simp add: wait_data_done_poll_done)
  next
    case True
    from Suc.prems
    have "hw ((data_poll_step hw ^^ n) (data_poll_step hw tr)) DATA_EVENT AND 1 \<noteq> 0"
      by (simp add: funpow_swap1)
    from Suc.IH[OF this] show ?thesis
      using True
      by (simp add: wait_data_done_poll_again data_poll_step_def csr_read_def busy_wait_us_def)
  qed
qed

lemma wait_cmd_done_poll_never:
  assumes "\<forall>tr. hw tr CMD_EVENT AND 1 = 0"
  shows "sdcard_wait_cmd_done_poll hw tr = None"
proof (rule ccontr)
  assume "sdcard_wait_cmd_done_poll hw tr \<noteq> None"
  then obtain y where "sdcard_wait_cmd_done_poll hw tr = Some y" by auto
  then have "\<not> (\<forall>tr. hw tr CMD_EVENT AND 1 = 0)"
  proof (induction rule: sdcard_wait_cmd_done_poll.raw_induct
                           [rotated 1, consumes 1, case_names step])
    case (step f hw tr y)
    show ?case
    proof (cases "hw tr CMD_EVENT AND 1 = 0")
      case False
      then show ?thesis by blast
    next
      case True
      with step(2) have "f hw (tr @ [Rd CMD_EVENT (hw tr CMD_EVENT), Busy_wait_us 10]) = Some y"
        by (simp add: csr_read_def busy_wait_us_def)
      from step(1)[OF this] show ?thesis .
    qed
  qed
  with assms show False by simp
qed

section \<open>What the block commands and a chunk add\<close>

lemma stop_transmission_appends:
  assumes "sdcard_stop_transmission cfg hw tr = Some (r, tr')"
  shows "\<exists>evs. tr' = tr @ evs
           \<and> command_evs 0 12 (ucast (SDCARD_CTRL_RESPONSE_SHORT_BUSY cfg)) evs"
  using assms send_command_appends by (simp add: sdcard_stop_transmission_def)

lemma set_block_count_appends:
  assumes "sdcard_set_block_count cfg hw n tr = Some (r, tr')"
  shows "\<exists>evs. tr' = tr @ evs
           \<and> command_evs n 23 (ucast (SDCARD_CTRL_RESPONSE_SHORT cfg)) evs"
  using assms send_command_appends by (simp add: sdcard_set_block_count_def)

lemma read_block_appends:
  assumes "(if 1 < n then sdcard_read_multiple_block cfg hw block n tr
            else sdcard_read_single_block cfg hw block tr) = Some (r, tr')"
  shows "\<exists>c w. tr' = tr @ [Wr BLOCK_LENGTH 512, Wr BLOCK_COUNT (if 1 < n then n else 1)] @ c @ w
           \<and> retried_command_evs block (if 1 < n then 18 else 17)
                (data_rsp cfg (SDCARD_CTRL_DATA_TRANSFER_READ cfg)) c
           \<and> data_wait_evs w"
proof -
  let ?g = "[Wr BLOCK_LENGTH 512, Wr BLOCK_COUNT (if 1 < n then n else 1)]"
  let ?cmd = "if 1 < n then 18 else 17 :: 8 word"
  let ?rsp = "data_rsp cfg (SDCARD_CTRL_DATA_TRANSFER_READ cfg)"
  from assms obtain tr3 where
    u: "sdcard_send_command_until_ok hw block ?cmd ?rsp (tr @ ?g) = Some tr3"
    and w: "sdcard_wait_data_done hw tr3 = Some (r, tr')"
    by (auto simp: sdcard_read_multiple_block_def sdcard_read_single_block_def csr_write_def
          data_rsp_def split: if_splits option.splits)
  from send_command_until_ok_appends[OF u] obtain c where
    c: "tr3 = (tr @ ?g) @ c" "retried_command_evs block ?cmd ?rsp c" by blast
  from wait_data_done_appends[OF w] obtain e where e: "tr' = tr3 @ e" "data_wait_evs e" by blast
  from c e show ?thesis by (intro exI[of _ c] exI[of _ e]) simp
qed

lemma write_block_appends:
  assumes "(if 1 < n then sdcard_write_multiple_block cfg hw block n tr
            else sdcard_write_single_block cfg hw block tr) = Some (r, tr')"
  shows "\<exists>c. tr' = tr @ [Wr BLOCK_LENGTH 512, Wr BLOCK_COUNT (if 1 < n then n else 1)] @ c
           \<and> retried_command_evs block (if 1 < n then 25 else 24)
                (data_rsp cfg (SDCARD_CTRL_DATA_TRANSFER_WRITE cfg)) c"
proof -
  let ?g = "[Wr BLOCK_LENGTH 512, Wr BLOCK_COUNT (if 1 < n then n else 1)]"
  let ?cmd = "if 1 < n then 25 else 24 :: 8 word"
  let ?rsp = "data_rsp cfg (SDCARD_CTRL_DATA_TRANSFER_WRITE cfg)"
  from assms have
    u: "sdcard_send_command_until_ok hw block ?cmd ?rsp (tr @ ?g) = Some tr'"
    by (auto simp: sdcard_write_multiple_block_def sdcard_write_single_block_def csr_write_def
          data_rsp_def split: if_splits option.splits)
  from send_command_until_ok_appends[OF u] obtain c where
    c: "tr' = (tr @ ?g) @ c" "retried_command_evs block ?cmd ?rsp c" by blast
  then show ?thesis by (intro exI[of _ c]) simp
qed

lemma optional_block_count_appends:
  assumes "(if SDCARD_CMD23_SUPPORT cfg
            then map_option snd (sdcard_set_block_count cfg hw n tr) else Some tr) = Some tr'"
  shows "\<exists>c23. tr' = tr @ c23
           \<and> (if SDCARD_CMD23_SUPPORT cfg
               then command_evs n 23 (ucast (SDCARD_CTRL_RESPONSE_SHORT cfg)) c23 else c23 = [])"
proof (cases "SDCARD_CMD23_SUPPORT cfg")
  case True
  with assms obtain r where "sdcard_set_block_count cfg hw n tr = Some (r, tr')" by auto
  from set_block_count_appends[OF this] True show ?thesis by simp
next
  case False
  with assms show ?thesis by simp
qed

lemma optional_stop_appends:
  assumes "(if 1 < n then map_option snd (sdcard_stop_transmission cfg hw tr) else Some tr)
             = Some tr'"
  shows "\<exists>s. tr' = tr @ s
           \<and> (if 1 < n then command_evs 0 12 (ucast (SDCARD_CTRL_RESPONSE_SHORT_BUSY cfg)) s
               else s = [])"
proof (cases "1 < n")
  case True
  with assms obtain r where "sdcard_stop_transmission cfg hw tr = Some (r, tr')" by auto
  from stop_transmission_appends[OF this] True show ?thesis by simp
next
  case False
  with assms show ?thesis by simp
qed

lemma read_chunk_appends:
  assumes "sdcard_read_chunk cfg hw block n buf tr = Some tr'"
  shows "\<exists>c23 c w p s.
           tr' = tr @ dma_setup BLOCK2MEM_DMA_ENABLE BLOCK2MEM_DMA_BASE BLOCK2MEM_DMA_LENGTH buf n
                  @ c23 @ [Wr BLOCK_LENGTH 512, Wr BLOCK_COUNT (if 1 < n then n else 1)]
                  @ c @ w @ p @ s
           \<and> (if SDCARD_CMD23_SUPPORT cfg
               then command_evs n 23 (ucast (SDCARD_CTRL_RESPONSE_SHORT cfg)) c23 else c23 = [])
           \<and> retried_command_evs block (if 1 < n then 18 else 17)
                (data_rsp cfg (SDCARD_CTRL_DATA_TRANSFER_READ cfg)) c
           \<and> data_wait_evs w
           \<and> dma_poll_evs BLOCK2MEM_DMA_DONE p
           \<and> (if 1 < n then command_evs 0 12 (ucast (SDCARD_CTRL_RESPONSE_SHORT_BUSY cfg)) s
               else s = [])"
proof -
  let ?d = "dma_setup BLOCK2MEM_DMA_ENABLE BLOCK2MEM_DMA_BASE BLOCK2MEM_DMA_LENGTH buf n"
  have "sdcard_read_chunk cfg hw block n buf tr =
      Option.bind (if SDCARD_CMD23_SUPPORT cfg
          then map_option snd (sdcard_set_block_count cfg hw n (tr @ ?d)) else Some (tr @ ?d))
        (\<lambda>t1. Option.bind (if 1 < n then sdcard_read_multiple_block cfg hw block n t1
              else sdcard_read_single_block cfg hw block t1)
        (\<lambda>(r, t2). Option.bind (dma_done_poll hw BLOCK2MEM_DMA_DONE t2)
        (\<lambda>t3. if 1 < n then map_option snd (sdcard_stop_transmission cfg hw t3) else Some t3)))"
    by (simp add: sdcard_read_chunk_def Let_def csr_write_def csr_write64_def dma_setup_def)
  with assms obtain t1 r t2 t3 where
    s1: "(if SDCARD_CMD23_SUPPORT cfg
          then map_option snd (sdcard_set_block_count cfg hw n (tr @ ?d)) else Some (tr @ ?d))
         = Some t1"
    and s2: "(if 1 < n then sdcard_read_multiple_block cfg hw block n t1
              else sdcard_read_single_block cfg hw block t1) = Some (r, t2)"
    and s3: "dma_done_poll hw BLOCK2MEM_DMA_DONE t2 = Some t3"
    and s4: "(if 1 < n then map_option snd (sdcard_stop_transmission cfg hw t3) else Some t3)
             = Some tr'"
    by (auto simp: bind_eq_Some_conv simp del: map_option_eq_Some)
  from optional_block_count_appends[OF s1] obtain c23 where
    c23: "t1 = (tr @ ?d) @ c23"
      "if SDCARD_CMD23_SUPPORT cfg
       then command_evs n 23 (ucast (SDCARD_CTRL_RESPONSE_SHORT cfg)) c23 else c23 = []"
    by blast
  from read_block_appends[OF s2] obtain c w where
    c: "t2 = t1 @ [Wr BLOCK_LENGTH 512, Wr BLOCK_COUNT (if 1 < n then n else 1)] @ c @ w"
      "retried_command_evs block (if 1 < n then 18 else 17)
         (data_rsp cfg (SDCARD_CTRL_DATA_TRANSFER_READ cfg)) c"
      "data_wait_evs w"
    by blast
  from dma_done_poll_appends[OF s3] obtain p where
    p: "t3 = t2 @ p" "dma_poll_evs BLOCK2MEM_DMA_DONE p" by blast
  from optional_stop_appends[OF s4] obtain s where
    s: "tr' = t3 @ s"
      "if 1 < n then command_evs 0 12 (ucast (SDCARD_CTRL_RESPONSE_SHORT_BUSY cfg)) s else s = []"
    by blast
  from c23 c p s show ?thesis
    by (intro exI[of _ c23] exI[of _ c] exI[of _ w] exI[of _ p] exI[of _ s]) simp
qed

lemma write_chunk_appends:
  assumes "sdcard_write_chunk cfg hw block n buf tr = Some tr'"
  shows "\<exists>c23 c s p.
           tr' = tr @ dma_setup MEM2BLOCK_DMA_ENABLE MEM2BLOCK_DMA_BASE MEM2BLOCK_DMA_LENGTH buf n
                  @ c23 @ [Wr BLOCK_LENGTH 512, Wr BLOCK_COUNT (if 1 < n then n else 1)]
                  @ c @ s @ p
           \<and> (if SDCARD_CMD23_SUPPORT cfg
               then command_evs n 23 (ucast (SDCARD_CTRL_RESPONSE_SHORT cfg)) c23 else c23 = [])
           \<and> retried_command_evs block (if 1 < n then 25 else 24)
                (data_rsp cfg (SDCARD_CTRL_DATA_TRANSFER_WRITE cfg)) c
           \<and> (if 1 < n then command_evs 0 12 (ucast (SDCARD_CTRL_RESPONSE_SHORT_BUSY cfg)) s
               else s = [])
           \<and> dma_poll_evs MEM2BLOCK_DMA_DONE p"
proof -
  let ?d = "dma_setup MEM2BLOCK_DMA_ENABLE MEM2BLOCK_DMA_BASE MEM2BLOCK_DMA_LENGTH buf n"
  have "sdcard_write_chunk cfg hw block n buf tr =
      Option.bind (if SDCARD_CMD23_SUPPORT cfg
          then map_option snd (sdcard_set_block_count cfg hw n (tr @ ?d)) else Some (tr @ ?d))
        (\<lambda>t1. Option.bind (if 1 < n then sdcard_write_multiple_block cfg hw block n t1
              else sdcard_write_single_block cfg hw block t1)
        (\<lambda>(r, t2). Option.bind
           (if 1 < n then map_option snd (sdcard_stop_transmission cfg hw t2) else Some t2)
        (\<lambda>t3. dma_done_poll hw MEM2BLOCK_DMA_DONE t3)))"
    by (simp add: sdcard_write_chunk_def Let_def csr_write_def csr_write64_def dma_setup_def)
  with assms obtain t1 r t2 t3 where
    s1: "(if SDCARD_CMD23_SUPPORT cfg
          then map_option snd (sdcard_set_block_count cfg hw n (tr @ ?d)) else Some (tr @ ?d))
         = Some t1"
    and s2: "(if 1 < n then sdcard_write_multiple_block cfg hw block n t1
              else sdcard_write_single_block cfg hw block t1) = Some (r, t2)"
    and s3: "(if 1 < n then map_option snd (sdcard_stop_transmission cfg hw t2) else Some t2)
             = Some t3"
    and s4: "dma_done_poll hw MEM2BLOCK_DMA_DONE t3 = Some tr'"
    by (auto simp: bind_eq_Some_conv simp del: map_option_eq_Some)
  from optional_block_count_appends[OF s1] obtain c23 where
    c23: "t1 = (tr @ ?d) @ c23"
      "if SDCARD_CMD23_SUPPORT cfg
       then command_evs n 23 (ucast (SDCARD_CTRL_RESPONSE_SHORT cfg)) c23 else c23 = []"
    by blast
  from write_block_appends[OF s2] obtain c where
    c: "t2 = t1 @ [Wr BLOCK_LENGTH 512, Wr BLOCK_COUNT (if 1 < n then n else 1)] @ c"
      "retried_command_evs block (if 1 < n then 25 else 24)
         (data_rsp cfg (SDCARD_CTRL_DATA_TRANSFER_WRITE cfg)) c"
    by blast
  from optional_stop_appends[OF s3] obtain s where
    s: "t3 = t2 @ s"
      "if 1 < n then command_evs 0 12 (ucast (SDCARD_CTRL_RESPONSE_SHORT_BUSY cfg)) s else s = []"
    by blast
  from dma_done_poll_appends[OF s4] obtain p where
    p: "tr' = t3 @ p" "dma_poll_evs MEM2BLOCK_DMA_DONE p" by blast
  from c23 c s p show ?thesis
    by (intro exI[of _ c23] exI[of _ c] exI[of _ s] exI[of _ p]) simp
qed

section \<open>A command sent until it reports ok\<close>

lemma wait_cmd_done_poll_shape:
  assumes "sdcard_wait_cmd_done_poll hw tr = Some y"
  shows "\<exists>polls. snd y = tr @ polls @ [Rd CMD_EVENT (fst y), Busy_wait_us 10]
           \<and> list_all is_cmd_poll polls \<and> \<not> list_ex has_done_bit polls \<and> fst y AND 1 \<noteq> 0"
  using assms
proof (induction rule: sdcard_wait_cmd_done_poll.raw_induct[rotated 1, consumes 1, case_names step])
  case (step f hw tr y)
  let ?p = "[Rd CMD_EVENT (hw tr CMD_EVENT), Busy_wait_us 10]"
  show ?case
  proof (cases "hw tr CMD_EVENT AND 1 \<noteq> 0")
    case True
    with step(2) have "snd y = tr @ [] @ [Rd CMD_EVENT (fst y), Busy_wait_us 10]"
      and "fst y AND 1 \<noteq> 0"
      by (auto simp: csr_read_def busy_wait_us_def)
    then show ?thesis by (intro exI[of _ "[]"]) simp
  next
    case False
    with step(2) have "f hw (tr @ ?p) = Some y"
      by (simp add: csr_read_def busy_wait_us_def)
    from step(1)[OF this] obtain polls where
      "snd y = (tr @ ?p) @ polls @ [Rd CMD_EVENT (fst y), Busy_wait_us 10]"
      "list_all is_cmd_poll polls" "\<not> list_ex has_done_bit polls" "fst y AND 1 \<noteq> 0"
      by blast
    with False show ?thesis by (intro exI[of _ "?p @ polls"]) simp
  qed
qed

lemma send_command_attempt:
  assumes "sdcard_send_command hw arg cmd rsp tr = Some (r, tr')"
  shows "\<exists>evs. tr' = tr @ evs \<and> attempt_evs arg cmd rsp r evs"
proof -
  let ?t = "tr @ cmd_writes arg cmd rsp"
  from assms have "sdcard_wait_cmd_done hw ?t = Some (r, tr')"
    by (simp add: sdcard_send_command_def csr_write_def cmd_writes_def)
  then obtain y where y: "sdcard_wait_cmd_done_poll hw ?t = Some y"
    and t: "tr' = snd y" and r: "r = event_result (fst y)"
    by (auto simp: sdcard_wait_cmd_done_def event_result_def split: option.splits if_splits)
  from wait_cmd_done_poll_shape[OF y] obtain polls where
    p: "snd y = ?t @ polls @ [Rd CMD_EVENT (fst y), Busy_wait_us 10]"
      "list_all is_cmd_poll polls" "\<not> list_ex has_done_bit polls" "fst y AND 1 \<noteq> 0"
    by blast
  have "attempt_evs arg cmd rsp r
          (cmd_writes arg cmd rsp @ polls @ [Rd CMD_EVENT (fst y), Busy_wait_us 10])"
    unfolding attempt_evs_def using p(2-4) r by blast
  with t p(1) show ?thesis
    by (intro exI[of _ "cmd_writes arg cmd rsp @ polls @ [Rd CMD_EVENT (fst y), Busy_wait_us 10]"])
       simp
qed

lemma send_command_until_ok_sent:
  assumes "sdcard_send_command_until_ok hw arg cmd rsp tr = Some tr'"
  shows "\<exists>evs. tr' = tr @ evs \<and> sent_until_ok arg cmd rsp evs"
  using assms
proof (induction rule: sdcard_send_command_until_ok.raw_induct
                         [rotated 1, consumes 1, case_names step])
  case (step f hw arg cmd rsp tr tr')
  from step(2) obtain r tr1 where s: "sdcard_send_command hw arg cmd rsp tr = Some (r, tr1)"
    by (auto split: option.splits)
  from send_command_attempt[OF s] obtain e1 where
    e1: "tr1 = tr @ e1" "attempt_evs arg cmd rsp r e1" by blast
  show ?case
  proof (cases "r = SD_OK")
    case True
    with step(2) s have "tr' = tr1" by simp
    moreover from True e1(2) have "sent_until_ok arg cmd rsp e1"
      unfolding sent_until_ok_def by (intro exI[of _ "[]"] exI[of _ e1]) simp
    ultimately show ?thesis using e1(1) by blast
  next
    case False
    with step(2) s have "f hw arg cmd rsp tr1 = Some tr'" by simp
    from step(1)[OF this] obtain e2 where
      e2: "tr' = tr1 @ e2" "sent_until_ok arg cmd rsp e2" by blast
    from e2(2) obtain fails ok where
      f: "e2 = concat fails @ ok"
        "list_all (\<lambda>a. \<exists>r. r \<noteq> SD_OK \<and> attempt_evs arg cmd rsp r a) fails"
        "attempt_evs arg cmd rsp SD_OK ok"
      unfolding sent_until_ok_def by blast
    from False e1(2) f have "sent_until_ok arg cmd rsp (e1 @ e2)"
      unfolding sent_until_ok_def by (intro exI[of _ "e1 # fails"] exI[of _ ok]) auto
    with e1(1) e2(1) show ?thesis by (intro exI[of _ "e1 @ e2"]) simp
  qed
qed

lemma send_command_until_ok_shape:
  assumes "sdcard_send_command_until_ok hw arg cmd rsp tr = Some tr'"
  shows "\<exists>evs. tr' = tr @ evs \<and> retried_command_evs arg cmd rsp evs
           \<and> sent_until_ok arg cmd rsp evs"
proof -
  from send_command_until_ok_appends[OF assms] obtain e1 where
    a: "tr' = tr @ e1" "retried_command_evs arg cmd rsp e1" by blast
  from send_command_until_ok_sent[OF assms] obtain e2 where
    b: "tr' = tr @ e2" "sent_until_ok arg cmd rsp e2" by blast
  from a(1) b(1) have "e1 = e2" by simp
  with a b show ?thesis by blast
qed

lemma write_block_sent:
  assumes "(if 1 < n then sdcard_write_multiple_block cfg hw block n tr
            else sdcard_write_single_block cfg hw block tr) = Some (r, tr')"
  shows "\<exists>c. tr' = tr @ [Wr BLOCK_LENGTH 512, Wr BLOCK_COUNT (if 1 < n then n else 1)] @ c
           \<and> retried_command_evs block (if 1 < n then 25 else 24)
                (data_rsp cfg (SDCARD_CTRL_DATA_TRANSFER_WRITE cfg)) c
           \<and> sent_until_ok block (if 1 < n then 25 else 24)
                (data_rsp cfg (SDCARD_CTRL_DATA_TRANSFER_WRITE cfg)) c
           \<and> r = SD_OK"
proof -
  let ?g = "[Wr BLOCK_LENGTH 512, Wr BLOCK_COUNT (if 1 < n then n else 1)]"
  let ?cmd = "if 1 < n then 25 else 24 :: 8 word"
  let ?rsp = "data_rsp cfg (SDCARD_CTRL_DATA_TRANSFER_WRITE cfg)"
  from assms have
    u: "sdcard_send_command_until_ok hw block ?cmd ?rsp (tr @ ?g) = Some tr'"
    and r: "r = SD_OK"
    by (auto simp: sdcard_write_multiple_block_def sdcard_write_single_block_def csr_write_def
          data_rsp_def split: if_splits option.splits)
  from send_command_until_ok_shape[OF u] obtain c where
    c: "tr' = (tr @ ?g) @ c" "retried_command_evs block ?cmd ?rsp c"
      "sent_until_ok block ?cmd ?rsp c" by blast
  with r show ?thesis by (intro exI[of _ c]) simp
qed

lemma write_chunk_sent:
  assumes "sdcard_write_chunk cfg hw block n buf tr = Some tr'"
  shows "\<exists>c23 c s p.
           tr' = tr @ dma_setup MEM2BLOCK_DMA_ENABLE MEM2BLOCK_DMA_BASE MEM2BLOCK_DMA_LENGTH buf n
                  @ c23 @ [Wr BLOCK_LENGTH 512, Wr BLOCK_COUNT (if 1 < n then n else 1)]
                  @ c @ s @ p
           \<and> (if SDCARD_CMD23_SUPPORT cfg
               then command_evs n 23 (ucast (SDCARD_CTRL_RESPONSE_SHORT cfg)) c23 else c23 = [])
           \<and> retried_command_evs block (if 1 < n then 25 else 24)
                (data_rsp cfg (SDCARD_CTRL_DATA_TRANSFER_WRITE cfg)) c
           \<and> sent_until_ok block (if 1 < n then 25 else 24)
                (data_rsp cfg (SDCARD_CTRL_DATA_TRANSFER_WRITE cfg)) c
           \<and> (if 1 < n then command_evs 0 12 (ucast (SDCARD_CTRL_RESPONSE_SHORT_BUSY cfg)) s
               else s = [])
           \<and> dma_poll_evs MEM2BLOCK_DMA_DONE p"
proof -
  let ?d = "dma_setup MEM2BLOCK_DMA_ENABLE MEM2BLOCK_DMA_BASE MEM2BLOCK_DMA_LENGTH buf n"
  have "sdcard_write_chunk cfg hw block n buf tr =
      Option.bind (if SDCARD_CMD23_SUPPORT cfg
          then map_option snd (sdcard_set_block_count cfg hw n (tr @ ?d)) else Some (tr @ ?d))
        (\<lambda>t1. Option.bind (if 1 < n then sdcard_write_multiple_block cfg hw block n t1
              else sdcard_write_single_block cfg hw block t1)
        (\<lambda>(r, t2). Option.bind
           (if 1 < n then map_option snd (sdcard_stop_transmission cfg hw t2) else Some t2)
        (\<lambda>t3. dma_done_poll hw MEM2BLOCK_DMA_DONE t3)))"
    by (simp add: sdcard_write_chunk_def Let_def csr_write_def csr_write64_def dma_setup_def)
  with assms obtain t1 r t2 t3 where
    s1: "(if SDCARD_CMD23_SUPPORT cfg
          then map_option snd (sdcard_set_block_count cfg hw n (tr @ ?d)) else Some (tr @ ?d))
         = Some t1"
    and s2: "(if 1 < n then sdcard_write_multiple_block cfg hw block n t1
              else sdcard_write_single_block cfg hw block t1) = Some (r, t2)"
    and s3: "(if 1 < n then map_option snd (sdcard_stop_transmission cfg hw t2) else Some t2)
             = Some t3"
    and s4: "dma_done_poll hw MEM2BLOCK_DMA_DONE t3 = Some tr'"
    by (auto simp: bind_eq_Some_conv simp del: map_option_eq_Some)
  from optional_block_count_appends[OF s1] obtain c23 where
    c23: "t1 = (tr @ ?d) @ c23"
      "if SDCARD_CMD23_SUPPORT cfg
       then command_evs n 23 (ucast (SDCARD_CTRL_RESPONSE_SHORT cfg)) c23 else c23 = []"
    by blast
  from write_block_sent[OF s2] obtain c where
    c: "t2 = t1 @ [Wr BLOCK_LENGTH 512, Wr BLOCK_COUNT (if 1 < n then n else 1)] @ c"
      "retried_command_evs block (if 1 < n then 25 else 24)
         (data_rsp cfg (SDCARD_CTRL_DATA_TRANSFER_WRITE cfg)) c"
      "sent_until_ok block (if 1 < n then 25 else 24)
         (data_rsp cfg (SDCARD_CTRL_DATA_TRANSFER_WRITE cfg)) c"
    by blast
  from optional_stop_appends[OF s3] obtain s where
    s: "t3 = t2 @ s"
      "if 1 < n then command_evs 0 12 (ucast (SDCARD_CTRL_RESPONSE_SHORT_BUSY cfg)) s else s = []"
    by blast
  from dma_done_poll_appends[OF s4] obtain p where
    p: "tr' = t3 @ p" "dma_poll_evs MEM2BLOCK_DMA_DONE p" by blast
  from c23 c s p show ?thesis
    by (intro exI[of _ c23] exI[of _ c] exI[of _ s] exI[of _ p]) simp
qed

section \<open>Arithmetic of the clock divider\<close>

lemma neg_div_neg_int:
  fixes a d :: int
  assumes "0 < d"
  shows "- (- a div d) = (a + d - 1) div d"
proof -
  define q r where "q = a div d" and "r = a mod d"
  have a: "a = d * q + r" and r: "0 \<le> r" "r < d"
    using assms by (simp_all add: q_def r_def)
  show ?thesis
  proof (cases "r = 0")
    case True
    have "- a = d * (- q) + 0" using a True by simp
    then have "- a div d = - q" using assms int_div_pos_eq[of "- a" d "- q" 0] by simp
    moreover have "a + d - 1 = d * q + (d - 1)" using a True by simp
    then have "(a + d - 1) div d = q"
      using assms int_div_pos_eq[of "a + d - 1" d q "d - 1"] by simp
    ultimately show ?thesis by simp
  next
    case False
    have "- a = d * (- q - 1) + (d - r)" using a by (simp add: algebra_simps)
    then have "- a div d = - q - 1"
      using r False int_div_pos_eq[of "- a" d "- q - 1" "d - r"] by simp
    moreover have "a + d - 1 = d * (q + 1) + (r - 1)" using a by (simp add: algebra_simps)
    then have "(a + d - 1) div d = q + 1"
      using r False int_div_pos_eq[of "a + d - 1" d "q + 1" "r - 1"] by simp
    ultimately show ?thesis by simp
  qed
qed

lemma ceil_div_nat:
  fixes n d :: nat
  assumes "0 < d"
  shows "\<lceil>real n / real d\<rceil> = int ((n + d - 1) div d)"
proof -
  have "\<lceil>real n / real d\<rceil> = \<lceil>(of_int (int n) :: real) / of_int (int d)\<rceil>" by simp
  also have "\<dots> = - (- int n div int d)" by (rule ceiling_divide_eq_div)
  also have "\<dots> = (int n + int d - 1) div int d" using assms by (simp add: neg_div_neg_int)
  also have "int n + int d - 1 = int (n + d - 1)" using assms by simp
  also have "int (n + d - 1) div int d = int ((n + d - 1) div d)" by (simp add: zdiv_int)
  finally show ?thesis .
qed

lemma and_not_mask_word:
  fixes x :: "32 word"
  shows "x AND NOT (mask k) = push_bit k (drop_bit k x)"
  by (rule bit_word_eqI) (auto simp: bit_simps)

lemma and_not_one_unat:
  fixes x :: "32 word"
  shows "unat (x AND NOT 1) = 2 * (unat x div 2)"
proof -
  have "unat x div 2 * 2 \<le> unat x" by simp
  moreover have "unat x < 2 ^ 32" using unsigned_less[of x] by simp
  ultimately have "unat x div 2 * 2 < 2 ^ 32" by linarith
  then have "(unat x div 2 * 2) mod 2 ^ 32 = unat x div 2 * 2" by simp
  moreover have "x AND NOT 1 = drop_bit 1 x * 2"
    using and_not_mask_word[of x 1] by (simp add: push_bit_eq_mult)
  ultimately show ?thesis
    by (simp add: unat_word_ariths unat_drop_bit_eq drop_bit_eq_div)
qed

lemma unat_min_word: "unat (min (a::32 word) b) = min (unat a) (unat b)"
  by (metis min_def word_less_eq_iff_unsigned)

lemma unat_max_word: "unat (max (a::32 word) b) = max (unat a) (unat b)"
  by (metis max_def word_less_eq_iff_unsigned)

lemma unat_div_round_up:
  fixes n d :: "32 word"
  assumes "d \<noteq> 0"
  shows "unat (DIV_ROUND_UP n d) = ((unat n + unat d - 1) mod 2^32) div unat d"
proof -
  have "unat (n + (d - 1)) = (unat n + unat (d - 1)) mod 2^32"
    using unat_word_ariths(1)[of n "d - 1"] by simp
  moreover have "n + d - 1 = n + (d - 1)" by simp
  ultimately have "unat (n + d - 1) = (unat n + unat (d - 1)) mod 2^32"
    by (simp only:)
  also have "unat (d - 1) = unat d - 1" using assms by (simp add: unat_minus_one)
  also have "unat n + (unat d - 1) = unat n + unat d - 1"
    using assms by (simp add: unat_gt_0 Suc_leI)
  finally show ?thesis by (simp add: DIV_ROUND_UP_def unat_div)
qed


lemma clamped_divider:
  fixes sys clk :: "32 word"
  assumes sys: "unat sys < 2 ^ 31" and clk: "clk \<noteq> 0"
  shows "int (unat (min (max (DIV_ROUND_UP sys clk) 2) 256)) =
           min (max \<lceil>real (unat sys) / real (unat clk)\<rceil> 2) 256"
proof -
  let ?n = "unat sys" and ?c = "unat clk"
  have c: "0 < ?c" using clk by (simp add: unat_gt_0)
  have c32: "?c < 2 ^ 32" using unsigned_less[of clk] by simp
  have u: "unat (min (max (DIV_ROUND_UP sys clk) 2) 256) =
             min (max (((?n + ?c - 1) mod 2 ^ 32) div ?c) 2) 256"
    using clk by (simp add: unat_min_word unat_max_word unat_div_round_up)
  have ceil: "\<lceil>real ?n / real ?c\<rceil> = int ((?n + ?c - 1) div ?c)"
    using c by (rule ceil_div_nat)
  show ?thesis
  proof (cases "?n + ?c - 1 < 2 ^ 32")
    case True
    then have "(?n + ?c - 1) mod 2 ^ 32 = ?n + ?c - 1" by simp
    with u ceil show ?thesis by (auto simp: min_def max_def)
  next
    case False
    then have big: "2 ^ 32 \<le> ?n + ?c - 1" by simp
    with sys c32 have lt: "?n + ?c - 1 < 2 * 2 ^ 32" by simp
    have "(?n + ?c - 1) mod 2 ^ 32 = ?n + ?c - 1 - 2 ^ 32"
      using big lt by (simp add: mod_if le_mod_geq)
    moreover have "?n + ?c - 1 - 2 ^ 32 < ?c" using sys big by simp
    ultimately have z: "((?n + ?c - 1) mod 2 ^ 32) div ?c = 0" by simp
    have "?n < ?c" using sys big c32 by simp
    then have "(?n + ?c - 1) div ?c \<le> 1"
      using c by (simp add: div_le_mono2 less_mult_imp_div_less Suc_leI flip: less_Suc_eq_le)
    with u z ceil show ?thesis by (auto simp: min_def max_def)
  qed
qed

section \<open>Running the driver on the sample hardware\<close>

lemma hw_ok_send_command:
  "sdcard_send_command hw_ok arg cmd rsp tr =
     Some (SD_OK, tr @ cmd_writes arg cmd rsp @ [Rd CMD_EVENT 1, Busy_wait_us 10])"
  by (simp add: sdcard_send_command_def sdcard_wait_cmd_done_def wait_cmd_done_poll_done
        hw_ok_def csr_write_def cmd_writes_def)

lemma hw_ok_send_command_until_ok:
  "sdcard_send_command_until_ok hw_ok arg cmd rsp tr =
     Some (tr @ cmd_writes arg cmd rsp @ [Rd CMD_EVENT 1, Busy_wait_us 10])"
  by (rule send_command_until_ok_done) (rule hw_ok_send_command)

lemma hw_ok_wait_data_done:
  "sdcard_wait_data_done hw_ok tr = Some (SD_OK, tr @ [Rd DATA_EVENT 1])"
  by (simp add: sdcard_wait_data_done_def wait_data_done_poll_done hw_ok_def)

lemma hw_ok_dma_done_poll:
  "hw_ok tr r = 1 \<Longrightarrow> dma_done_poll hw_ok r tr = Some (tr @ [Rd r 1])"
  by (simp add: dma_done_poll_done)

lemmas hw_ok_run = hw_ok_send_command hw_ok_send_command_until_ok hw_ok_wait_data_done
  hw_ok_dma_done_poll

lemma read_0_2_run: "sdcard_read litex_cfg hw_ok 0 2 0 [] = Some read_0_2_events"
  by (simp add: sdcard_read_def sdcard_read_loop.simps sdcard_read_chunk_def
        sdcard_read_multiple_block_def sdcard_stop_transmission_def hw_ok_run hw_ok_def litex_cfg_def csr_write_def
        csr_write64_def cmd_writes_def flush_cpu_dcache_def flush_l2_cache_def
        read_0_2_events_def)

lemma write_0_4_run: "sdcard_write litex_cfg hw_ok 0 4 0 [] = Some write_0_4_events"
  by (simp add: sdcard_write_def sdcard_write_loop.simps sdcard_write_chunk_def
        sdcard_write_multiple_block_def sdcard_stop_transmission_def hw_ok_run hw_ok_def litex_cfg_def csr_write_def
        csr_write64_def cmd_writes_def write_0_4_events_def)


section \<open>Order of events\<close>

lemma precedesI:
  assumes "list_ex P A" and "\<not> list_ex Q A" and "list_ex Q C"
  shows "precedes P Q (A @ C)"
proof -
  from assms(1) obtain x where x: "x \<in> set A" "P x" by (auto simp: list_ex_iff)
  then have "takeWhile (\<lambda>e. \<not> P e) (A @ C) = takeWhile (\<lambda>e. \<not> P e) A"
    by (intro takeWhile_append1[of x]) simp_all
  moreover have "\<not> list_ex Q (takeWhile (\<lambda>e. \<not> P e) A)"
    using assms(2) by (auto simp: list_ex_iff dest: set_takeWhileD)
  ultimately show ?thesis using assms by (simp add: precedes_def)
qed

lemma all_beforeI:
  assumes "\<not> list_ex P A" and "list_ex Q A" and "list_ex P B" and "\<not> list_ex Q B"
  shows "all_before Q P (A @ B)"
proof -
  from assms(1) have "dropWhile (\<lambda>e. \<not> P e) (A @ B) = dropWhile (\<lambda>e. \<not> P e) B"
    by (intro dropWhile_append2) (auto simp: list_ex_iff)
  moreover have "\<not> list_ex Q (dropWhile (\<lambda>e. \<not> P e) B)"
    using assms(4) by (auto simp: list_ex_iff dest: set_dropWhileD)
  ultimately show ?thesis using assms by (simp add: all_before_def)
qed

lemma cmd_ev_of_no_read: "cmd_ev_of k e \<Longrightarrow> r \<noteq> CMD_EVENT \<Longrightarrow> \<not> is_read_of r e"
  by (cases e) auto

lemma cmd_ev_of_no_command: "cmd_ev_of k e \<Longrightarrow> k \<noteq> j \<Longrightarrow> \<not> is_command j e"
  by (cases e) auto

lemma is_data_poll_no_read: "is_data_poll e \<Longrightarrow> r \<noteq> DATA_EVENT \<Longrightarrow> \<not> is_read_of r e"
  by (cases e) auto

lemma is_data_poll_no_command: "is_data_poll e \<Longrightarrow> \<not> is_command j e"
  by (cases e) auto

lemma is_read_of_no_command: "is_read_of r e \<Longrightarrow> \<not> is_command j e"
  by (cases e) auto

lemma is_read_of_other: "is_read_of r e \<Longrightarrow> r \<noteq> r' \<Longrightarrow> \<not> is_read_of r' e"
  by (cases e) auto

lemma retried_no_read:
  "retried_command_evs arg cmd rsp evs \<Longrightarrow> r \<noteq> CMD_EVENT \<Longrightarrow> \<not> list_ex (is_read_of r) evs"
  unfolding retried_command_evs_def list_all_iff list_ex_iff
  using cmd_ev_of_no_read by blast

lemma retried_no_command:
  "retried_command_evs arg cmd rsp evs \<Longrightarrow> ucast cmd \<noteq> j \<Longrightarrow> \<not> list_ex (is_command j) evs"
  unfolding retried_command_evs_def list_all_iff list_ex_iff
  using cmd_ev_of_no_command by blast

lemma retried_has_command:
  assumes "retried_command_evs arg cmd rsp evs"
  shows "list_ex (is_command (ucast cmd)) evs"
proof -
  have "evs = take 3 evs @ drop 3 evs" by simp
  with assms have "evs = cmd_writes arg cmd rsp @ drop 3 evs"
    by (simp add: retried_command_evs_def)
  then have "set (cmd_writes arg cmd rsp) \<subseteq> set evs"
    by (metis set_append Un_upper1)
  then have "Wr CMD_COMMAND (push_bit 8 (ucast cmd) OR ucast rsp) \<in> set evs"
    by (simp add: cmd_writes_def)
  moreover have "is_command (ucast cmd) (Wr CMD_COMMAND (push_bit 8 (ucast cmd) OR ucast rsp))"
    using opcode_of_command_word[of cmd rsp] by simp
  ultimately show ?thesis unfolding list_ex_iff by blast
qed

lemma data_wait_no_read:
  "data_wait_evs evs \<Longrightarrow> r \<noteq> DATA_EVENT \<Longrightarrow> \<not> list_ex (is_read_of r) evs"
  unfolding data_wait_evs_def list_all_iff list_ex_iff
  using is_data_poll_no_read by blast

lemma data_wait_no_command: "data_wait_evs evs \<Longrightarrow> \<not> list_ex (is_command j) evs"
  unfolding data_wait_evs_def list_all_iff list_ex_iff
  using is_data_poll_no_command by blast

lemma dma_poll_no_command: "dma_poll_evs r evs \<Longrightarrow> \<not> list_ex (is_command j) evs"
  unfolding dma_poll_evs_def list_all_iff list_ex_iff
  using is_read_of_no_command by blast

lemma dma_poll_no_other_read:
  "dma_poll_evs r evs \<Longrightarrow> r \<noteq> r' \<Longrightarrow> \<not> list_ex (is_read_of r') evs"
  unfolding dma_poll_evs_def list_all_iff list_ex_iff
  using is_read_of_other by blast

lemma dma_poll_has_read: "dma_poll_evs r evs \<Longrightarrow> list_ex (is_read_of r) evs"
  by (cases evs) (auto simp: dma_poll_evs_def)

lemma dma_setup_no_read: "\<not> list_ex (is_read_of r) (dma_setup a b c buf n)"
  by (simp add: dma_setup_def)

lemma dma_setup_no_command:
  "a \<noteq> CMD_COMMAND \<Longrightarrow> c \<noteq> CMD_COMMAND \<Longrightarrow> \<not> list_ex (is_command j) (dma_setup a b c buf n)"
  by (simp add: dma_setup_def)

lemmas command_evs_no_read = retried_no_read[OF command_evs_retried]
lemmas command_evs_no_command = retried_no_command[OF command_evs_retried]
lemmas command_evs_has_command = retried_has_command[OF command_evs_retried]

lemma write_chunk_order:
  assumes "1 < n" and "sdcard_write_chunk cfg hw block n buf tr = Some tr'"
  shows "precedes (is_command 12) (is_read_of MEM2BLOCK_DMA_DONE) (new_events tr tr')"
proof -
  let ?d = "dma_setup MEM2BLOCK_DMA_ENABLE MEM2BLOCK_DMA_BASE MEM2BLOCK_DMA_LENGTH buf n"
  let ?g = "[Wr BLOCK_LENGTH 512, Wr BLOCK_COUNT n]"
  from write_chunk_appends[OF assms(2)] have
    "\<exists>c23 c s p. tr' = tr @ ?d @ c23 @ ?g @ c @ s @ p
       \<and> (if SDCARD_CMD23_SUPPORT cfg
               then command_evs n 23 (ucast (SDCARD_CTRL_RESPONSE_SHORT cfg)) c23 else c23 = [])
       \<and> retried_command_evs block 25 (data_rsp cfg (SDCARD_CTRL_DATA_TRANSFER_WRITE cfg)) c
       \<and> command_evs 0 12 (ucast (SDCARD_CTRL_RESPONSE_SHORT_BUSY cfg)) s
       \<and> dma_poll_evs MEM2BLOCK_DMA_DONE p"
    using assms(1) by simp
  then obtain c23 c s p where
    t: "tr' = tr @ ?d @ c23 @ ?g @ c @ s @ p"
    and c23: "if SDCARD_CMD23_SUPPORT cfg
               then command_evs n 23 (ucast (SDCARD_CTRL_RESPONSE_SHORT cfg)) c23 else c23 = []"
    and c: "retried_command_evs block 25 (data_rsp cfg (SDCARD_CTRL_DATA_TRANSFER_WRITE cfg)) c"
    and s: "command_evs 0 12 (ucast (SDCARD_CTRL_RESPONSE_SHORT_BUSY cfg)) s"
    and p: "dma_poll_evs MEM2BLOCK_DMA_DONE p"
    by blast
  have n1: "\<not> list_ex (is_read_of MEM2BLOCK_DMA_DONE) c23"
  proof (cases "SDCARD_CMD23_SUPPORT cfg")
    case True
    with c23 show ?thesis by (simp add: command_evs_no_read)
  next
    case False
    with c23 show ?thesis by simp
  qed
  have n2: "\<not> list_ex (is_read_of MEM2BLOCK_DMA_DONE) c"
    using c by (rule retried_no_read) simp
  have n3: "\<not> list_ex (is_read_of MEM2BLOCK_DMA_DONE) s"
    using s by (rule command_evs_no_read) simp
  have h: "list_ex (is_command 12) s" using command_evs_has_command[OF s] by simp
  have "precedes (is_command 12) (is_read_of MEM2BLOCK_DMA_DONE) ((?d @ c23 @ ?g @ c @ s) @ p)"
  proof (rule precedesI)
    show "list_ex (is_command 12) (?d @ c23 @ ?g @ c @ s)" using h by simp
    show "\<not> list_ex (is_read_of MEM2BLOCK_DMA_DONE) (?d @ c23 @ ?g @ c @ s)"
      using n1 n2 n3 by (simp add: dma_setup_no_read)
    show "list_ex (is_read_of MEM2BLOCK_DMA_DONE) p" using p by (rule dma_poll_has_read)
  qed
  moreover have "new_events tr tr' = (?d @ c23 @ ?g @ c @ s) @ p"
    using t by (simp add: new_events_def)
  ultimately show ?thesis by (simp only:)
qed

lemma read_chunk_order:
  assumes "1 < n" and "sdcard_read_chunk cfg hw block n buf tr = Some tr'"
  shows "\<exists>pre p s. new_events tr tr' = pre @ p @ s
           \<and> \<not> list_ex (is_command 12) pre
           \<and> \<not> list_ex (is_read_of BLOCK2MEM_DMA_DONE) pre
           \<and> dma_poll_evs BLOCK2MEM_DMA_DONE p
           \<and> command_evs 0 12 (ucast (SDCARD_CTRL_RESPONSE_SHORT_BUSY cfg)) s"
proof -
  let ?d = "dma_setup BLOCK2MEM_DMA_ENABLE BLOCK2MEM_DMA_BASE BLOCK2MEM_DMA_LENGTH buf n"
  let ?g = "[Wr BLOCK_LENGTH 512, Wr BLOCK_COUNT n]"
  from read_chunk_appends[OF assms(2)] have
    "\<exists>c23 c w p s. tr' = tr @ ?d @ c23 @ ?g @ c @ w @ p @ s
       \<and> (if SDCARD_CMD23_SUPPORT cfg
               then command_evs n 23 (ucast (SDCARD_CTRL_RESPONSE_SHORT cfg)) c23 else c23 = [])
       \<and> retried_command_evs block 18 (data_rsp cfg (SDCARD_CTRL_DATA_TRANSFER_READ cfg)) c
       \<and> data_wait_evs w
       \<and> dma_poll_evs BLOCK2MEM_DMA_DONE p
       \<and> command_evs 0 12 (ucast (SDCARD_CTRL_RESPONSE_SHORT_BUSY cfg)) s"
    using assms(1) by simp
  then obtain c23 c w p s where
    t: "tr' = tr @ ?d @ c23 @ ?g @ c @ w @ p @ s"
    and c23: "if SDCARD_CMD23_SUPPORT cfg
               then command_evs n 23 (ucast (SDCARD_CTRL_RESPONSE_SHORT cfg)) c23 else c23 = []"
    and c: "retried_command_evs block 18 (data_rsp cfg (SDCARD_CTRL_DATA_TRANSFER_READ cfg)) c"
    and w: "data_wait_evs w"
    and p: "dma_poll_evs BLOCK2MEM_DMA_DONE p"
    and s: "command_evs 0 12 (ucast (SDCARD_CTRL_RESPONSE_SHORT_BUSY cfg)) s"
    by blast
  have a: "\<not> list_ex (is_read_of BLOCK2MEM_DMA_DONE) c23 \<and> \<not> list_ex (is_command 12) c23"
  proof (cases "SDCARD_CMD23_SUPPORT cfg")
    case True
    with c23 have c': "command_evs n 23 (ucast (SDCARD_CTRL_RESPONSE_SHORT cfg)) c23" by simp
    have "\<not> list_ex (is_read_of BLOCK2MEM_DMA_DONE) c23"
      using c' by (rule command_evs_no_read) simp
    moreover have "\<not> list_ex (is_command 12) c23"
      using c' by (rule command_evs_no_command) simp
    ultimately show ?thesis by simp
  next
    case False
    with c23 show ?thesis by simp
  qed
  have b: "\<not> list_ex (is_read_of BLOCK2MEM_DMA_DONE) c" "\<not> list_ex (is_command 12) c"
    using c by (rule retried_no_read, simp) (rule retried_no_command[OF c], simp)
  have d: "\<not> list_ex (is_read_of BLOCK2MEM_DMA_DONE) w" "\<not> list_ex (is_command 12) w"
    using w by (rule data_wait_no_read, simp) (rule data_wait_no_command[OF w])
  let ?pre = "?d @ c23 @ ?g @ c @ w"
  have "\<not> list_ex (is_command 12) ?pre"
    using a b d by (simp add: dma_setup_no_command)
  moreover have "\<not> list_ex (is_read_of BLOCK2MEM_DMA_DONE) ?pre"
    using a b d by (simp add: dma_setup_no_read)
  moreover have "new_events tr tr' = ?pre @ p @ s"
    using t by (simp add: new_events_def)
  ultimately show ?thesis using p s by blast
qed


section \<open>The transfer loops\<close>


lemma write_one_chunk:
  assumes "SDCARD_CMD25_SUPPORT cfg" and "count \<noteq> 0"
  shows "sdcard_write cfg hw block count buf tr = sdcard_write_chunk cfg hw block count buf tr"
  using assms
  by (simp add: sdcard_write_def sdcard_write_loop.simps[of cfg hw block count]
        sdcard_write_loop.simps[of cfg hw _ 0] split: option.splits)

lemma read_loop_one_chunk:
  assumes "SDCARD_CMD18_SUPPORT cfg" and "count \<noteq> 0"
  shows "sdcard_read_loop cfg hw block count buf tr
           = sdcard_read_chunk cfg hw block count buf tr"
  using assms
  by (simp add: sdcard_read_loop.simps[of cfg hw block count]
        sdcard_read_loop.simps[of cfg hw _ 0] split: option.splits)

lemma read_appends_flush:
  assumes "sdcard_read cfg hw block count buf tr = Some tr'"
  shows "\<exists>t1. sdcard_read_loop cfg hw block count buf tr = Some t1
           \<and> tr' = t1 @ (if \<not> CONFIG_CPU_HAS_DMA_BUS cfg then [Flush_cpu_dcache, Flush_l2_cache]
                          else [])"
  using assms
  by (auto simp: sdcard_read_def flush_cpu_dcache_def flush_l2_cache_def
        split: option.splits if_splits)

lemma write_chunk_no_data_read:
  assumes "sdcard_write_chunk cfg hw block n buf tr = Some tr'"
  shows "\<exists>evs. tr' = tr @ evs \<and> \<not> list_ex (is_read_of DATA_EVENT) evs"
proof -
  let ?d = "dma_setup MEM2BLOCK_DMA_ENABLE MEM2BLOCK_DMA_BASE MEM2BLOCK_DMA_LENGTH buf n"
  let ?g = "[Wr BLOCK_LENGTH 512, Wr BLOCK_COUNT (if 1 < n then n else 1)]"
  from write_chunk_appends[OF assms] obtain c23 c s p where
    t: "tr' = tr @ ?d @ c23 @ ?g @ c @ s @ p"
    and c23: "if SDCARD_CMD23_SUPPORT cfg
               then command_evs n 23 (ucast (SDCARD_CTRL_RESPONSE_SHORT cfg)) c23 else c23 = []"
    and c: "retried_command_evs block (if 1 < n then 25 else 24)
              (data_rsp cfg (SDCARD_CTRL_DATA_TRANSFER_WRITE cfg)) c"
    and s: "if 1 < n then command_evs 0 12 (ucast (SDCARD_CTRL_RESPONSE_SHORT_BUSY cfg)) s
            else s = []"
    and p: "dma_poll_evs MEM2BLOCK_DMA_DONE p"
    by blast
  have n1: "\<not> list_ex (is_read_of DATA_EVENT) c23"
  proof (cases "SDCARD_CMD23_SUPPORT cfg")
    case True
    with c23 show ?thesis by (simp add: command_evs_no_read)
  next
    case False
    with c23 show ?thesis by simp
  qed
  have n2: "\<not> list_ex (is_read_of DATA_EVENT) c"
    using c by (rule retried_no_read) simp
  have n3: "\<not> list_ex (is_read_of DATA_EVENT) s"
  proof (cases "1 < n")
    case True
    with s show ?thesis by (simp add: command_evs_no_read)
  next
    case False
    with s show ?thesis by simp
  qed
  have n4: "\<not> list_ex (is_read_of DATA_EVENT) p"
    using p by (rule dma_poll_no_other_read) simp
  have "\<not> list_ex (is_read_of DATA_EVENT) (?d @ c23 @ ?g @ c @ s @ p)"
    using n1 n2 n3 n4 by (simp add: dma_setup_no_read)
  with t show ?thesis by blast
qed

lemma write_loop_no_data_read:
  "sdcard_write_loop cfg hw block count buf tr = Some tr' \<Longrightarrow>
   \<exists>evs. tr' = tr @ evs \<and> \<not> list_ex (is_read_of DATA_EVENT) evs"
proof (induction cfg hw block count buf tr rule: sdcard_write_loop.induct)
  case (1 cfg hw block count buf tr)
  show ?case
  proof (cases "count = 0")
    case True
    with "1.prems" show ?thesis by (simp add: sdcard_write_loop.simps[of cfg hw block 0])
  next
    case False
    define n where "n = (if SDCARD_CMD25_SUPPORT cfg then count else 1)"
    from "1.prems" False obtain t1 where
      ch: "sdcard_write_chunk cfg hw block n buf tr = Some t1"
      and lp: "sdcard_write_loop cfg hw (block + n) (count - n) (buf + 512 * n) t1 = Some tr'"
      by (simp add: sdcard_write_loop.simps[of cfg hw block count] n_def Let_def
            split: option.splits)
    from write_chunk_no_data_read[OF ch] obtain e1 where
      e1: "t1 = tr @ e1" "\<not> list_ex (is_read_of DATA_EVENT) e1" by blast
    from "1.IH"[OF False n_def ch lp] obtain e2 where
      e2: "tr' = t1 @ e2" "\<not> list_ex (is_read_of DATA_EVENT) e2" by blast
    from e1 e2 show ?thesis by (intro exI[of _ "e1 @ e2"]) simp
  qed
qed


section \<open>Values written by the parts of a chunk\<close>

lemma writes_to_cmd_evs:
  "list_all (cmd_ev_of k) evs \<Longrightarrow> r \<noteq> CMD_ARGUMENT \<Longrightarrow> r \<noteq> CMD_COMMAND \<Longrightarrow> r \<noteq> CMD_SEND
   \<Longrightarrow> writes_to r evs = []"
proof (induction evs)
  case Nil
  then show ?case by (simp add: writes_to_Nil)
next
  case (Cons e evs)
  then show ?case by (cases e) (auto simp: writes_to_Cons)
qed

lemma writes_to_data_polls: "list_all is_data_poll evs \<Longrightarrow> writes_to r evs = []"
proof (induction evs)
  case Nil
  then show ?case by (simp add: writes_to_Nil)
next
  case (Cons e evs)
  then show ?case by (cases e) (auto simp: writes_to_Cons)
qed

lemma writes_to_reads: "list_all (is_read_of r') evs \<Longrightarrow> writes_to r evs = []"
proof (induction evs)
  case Nil
  then show ?case by (simp add: writes_to_Nil)
next
  case (Cons e evs)
  then show ?case by (cases e) (auto simp: writes_to_Cons)
qed

lemma writes_to_retried:
  "retried_command_evs arg cmd rsp evs \<Longrightarrow> r \<noteq> CMD_ARGUMENT \<Longrightarrow> r \<noteq> CMD_COMMAND
   \<Longrightarrow> r \<noteq> CMD_SEND \<Longrightarrow> writes_to r evs = []"
  unfolding retried_command_evs_def using writes_to_cmd_evs by blast

lemmas writes_to_command = writes_to_retried[OF command_evs_retried]

lemma writes_to_data_wait: "data_wait_evs evs \<Longrightarrow> writes_to r evs = []"
  unfolding data_wait_evs_def using writes_to_data_polls by blast

lemma writes_to_dma_poll: "dma_poll_evs r' evs \<Longrightarrow> writes_to r evs = []"
  unfolding dma_poll_evs_def using writes_to_reads by blast

lemma read_chunk_accounting:
  assumes "sdcard_read_chunk cfg hw block n buf tr = Some tr'"
  shows "\<exists>evs. tr' = tr @ evs
           \<and> writes_to BLOCK_COUNT evs = [if 1 < n then n else 1]
           \<and> writes_to BLOCK2MEM_DMA_ENABLE evs = [0, 1]
           \<and> writes_to BLOCK2MEM_DMA_LENGTH evs = [512 * n]"
proof -
  let ?d = "dma_setup BLOCK2MEM_DMA_ENABLE BLOCK2MEM_DMA_BASE BLOCK2MEM_DMA_LENGTH buf n"
  let ?g = "[Wr BLOCK_LENGTH 512, Wr BLOCK_COUNT (if 1 < n then n else 1)]"
  from read_chunk_appends[OF assms] obtain c23 c w p s where
    t: "tr' = tr @ ?d @ c23 @ ?g @ c @ w @ p @ s"
    and c23: "if SDCARD_CMD23_SUPPORT cfg
               then command_evs n 23 (ucast (SDCARD_CTRL_RESPONSE_SHORT cfg)) c23 else c23 = []"
    and c: "retried_command_evs block (if 1 < n then 18 else 17)
              (data_rsp cfg (SDCARD_CTRL_DATA_TRANSFER_READ cfg)) c"
    and w: "data_wait_evs w"
    and p: "dma_poll_evs BLOCK2MEM_DMA_DONE p"
    and s: "if 1 < n then command_evs 0 12 (ucast (SDCARD_CTRL_RESPONSE_SHORT_BUSY cfg)) s
            else s = []"
    by blast
  have e23: "writes_to r c23 = []"
    if "r \<noteq> CMD_ARGUMENT" "r \<noteq> CMD_COMMAND" "r \<noteq> CMD_SEND" for r
    using c23 that by (cases "SDCARD_CMD23_SUPPORT cfg") (simp_all add: writes_to_command writes_to_Nil)
  have es: "writes_to r s = []"
    if "r \<noteq> CMD_ARGUMENT" "r \<noteq> CMD_COMMAND" "r \<noteq> CMD_SEND" for r
    using s that by (cases "1 < n") (simp_all add: writes_to_command writes_to_Nil)
  have ec: "writes_to r c = []"
    if "r \<noteq> CMD_ARGUMENT" "r \<noteq> CMD_COMMAND" "r \<noteq> CMD_SEND" for r
    using c that by (rule writes_to_retried)
  have "writes_to BLOCK_COUNT (?d @ c23 @ ?g @ c @ w @ p @ s) = [if 1 < n then n else 1]"
    by (simp add: writes_to_append e23 es ec writes_to_data_wait[OF w] writes_to_dma_poll[OF p]
          dma_setup_def writes_to_Cons writes_to_Nil)
  moreover
  have "writes_to BLOCK2MEM_DMA_ENABLE (?d @ c23 @ ?g @ c @ w @ p @ s) = [0, 1]"
    by (simp add: writes_to_append e23 es ec writes_to_data_wait[OF w] writes_to_dma_poll[OF p]
          dma_setup_def writes_to_Cons writes_to_Nil)
  moreover
  have "writes_to BLOCK2MEM_DMA_LENGTH (?d @ c23 @ ?g @ c @ w @ p @ s) = [512 * n]"
    by (simp add: writes_to_append e23 es ec writes_to_data_wait[OF w] writes_to_dma_poll[OF p]
          dma_setup_def writes_to_Cons writes_to_Nil)
  ultimately show ?thesis using t by blast
qed

lemma word_not_zero_not_gt_one: "(count :: 32 word) \<noteq> 0 \<Longrightarrow> \<not> 1 < count \<Longrightarrow> count = 1"
proof -
  assume "count \<noteq> 0" and "\<not> 1 < count"
  then have "0 < unat count" and "\<not> 1 < unat count"
    by (simp_all add: word_less_nat_alt unat_gt_0)
  then have "unat count = unat (1 :: 32 word)" by simp
  then show ?thesis by (simp only: word_unat_eq_iff)
qed

lemma read_loop_accounting:
  "sdcard_read_loop cfg hw block count buf tr = Some tr' \<Longrightarrow>
   \<exists>evs. tr' = tr @ evs
      \<and> writes_to BLOCK_COUNT evs =
          (if count = 0 then [] else if SDCARD_CMD18_SUPPORT cfg then [count]
           else replicate (unat count) 1)
      \<and> writes_to BLOCK2MEM_DMA_ENABLE evs =
          concat (replicate (if count = 0 then 0 else if SDCARD_CMD18_SUPPORT cfg then 1
                             else unat count) [0, 1])"
proof (induction cfg hw block count buf tr rule: sdcard_read_loop.induct)
  case (1 cfg hw block count buf tr)
  show ?case
  proof (cases "count = 0")
    case True
    with "1.prems" show ?thesis
      by (simp add: sdcard_read_loop.simps[of cfg hw block 0] writes_to_Nil)
  next
    case False
    define n where "n = (if SDCARD_CMD18_SUPPORT cfg then count else 1)"
    from "1.prems" False obtain t1 where
      ch: "sdcard_read_chunk cfg hw block n buf tr = Some t1"
      and lp: "sdcard_read_loop cfg hw (block + n) (count - n) (buf + 512 * n) t1 = Some tr'"
      by (simp add: sdcard_read_loop.simps[of cfg hw block count] n_def Let_def
            split: option.splits)
    from read_chunk_accounting[OF ch] obtain e1 where
      e1: "t1 = tr @ e1" "writes_to BLOCK_COUNT e1 = [if 1 < n then n else 1]"
        "writes_to BLOCK2MEM_DMA_ENABLE e1 = [0, 1]" by blast
    from "1.IH"[OF False n_def ch lp] obtain e2 where
      e2: "tr' = t1 @ e2"
        "writes_to BLOCK_COUNT e2 =
          (if count - n = 0 then [] else if SDCARD_CMD18_SUPPORT cfg then [count - n]
           else replicate (unat (count - n)) 1)"
        "writes_to BLOCK2MEM_DMA_ENABLE e2 =
          concat (replicate (if count - n = 0 then 0 else if SDCARD_CMD18_SUPPORT cfg then 1
                             else unat (count - n)) [0, 1])"
      by blast
    have t: "tr' = tr @ e1 @ e2" using e1 e2 by simp
    show ?thesis
    proof (cases "SDCARD_CMD18_SUPPORT cfg")
      case True
      then have n: "n = count" by (simp add: n_def)
      have c1: "\<not> 1 < count \<Longrightarrow> count = 1"
        using \<open>count \<noteq> 0\<close> by (rule word_not_zero_not_gt_one)
      have bc: "writes_to BLOCK_COUNT e1 = [count]"
      proof (cases "1 < count")
        case True
        with e1(2) n show ?thesis by simp
      next
        case False
        with e1(2) n c1 show ?thesis by simp
      qed
      from bc e1(3) e2 n True False t show ?thesis
        by (intro exI[of _ "e1 @ e2"]) (simp add: writes_to_append)
    next
      case c18: False
      then have n: "n = 1" by (simp add: n_def)
      have u: "unat count = Suc (unat (count - 1))"
        using False by (simp add: unat_minus_one unat_gt_0)
      have z: "count - 1 = 0 \<Longrightarrow> unat (count - 1) = 0" by simp
      from e1 e2 n c18 False t u z show ?thesis
        by (intro exI[of _ "e1 @ e2"]) (auto simp: writes_to_append)
    qed
  qed
qed


section \<open>Hardware that completes at once\<close>

lemma ok_send_command:
  assumes "completes_ok hw"
  shows "sdcard_send_command hw arg cmd rsp tr =
     Some (SD_OK, tr @ cmd_writes arg cmd rsp
                   @ [Rd CMD_EVENT (hw (tr @ cmd_writes arg cmd rsp) CMD_EVENT), Busy_wait_us 10])"
proof -
  let ?t = "tr @ cmd_writes arg cmd rsp"
  from assms have "hw ?t CMD_EVENT AND 1 \<noteq> 0" "hw ?t CMD_EVENT AND 4 = 0"
    "hw ?t CMD_EVENT AND 8 = 0"
    by (simp_all add: completes_ok_def)
  then have "sdcard_wait_cmd_done hw ?t =
      Some (SD_OK, ?t @ [Rd CMD_EVENT (hw ?t CMD_EVENT), Busy_wait_us 10])"
    by (simp add: sdcard_wait_cmd_done_def wait_cmd_done_poll_done)
  then show ?thesis
    by (simp add: sdcard_send_command_def csr_write_def cmd_writes_def)
qed

lemma ok_send_command_until_ok:
  assumes "completes_ok hw"
  shows "sdcard_send_command_until_ok hw arg cmd rsp tr =
     Some (tr @ cmd_writes arg cmd rsp
             @ [Rd CMD_EVENT (hw (tr @ cmd_writes arg cmd rsp) CMD_EVENT), Busy_wait_us 10])"
  by (rule send_command_until_ok_done) (rule ok_send_command[OF assms])

lemma ok_wait_data_done:
  assumes "completes_ok hw"
  shows "sdcard_wait_data_done hw tr =
     Some (if hw tr DATA_EVENT AND 4 \<noteq> 0 then SD_TIMEOUT
           else if hw tr DATA_EVENT AND 8 \<noteq> 0 then SD_CRCERROR else SD_OK,
           tr @ [Rd DATA_EVENT (hw tr DATA_EVENT)])"
proof -
  from assms have "hw tr DATA_EVENT AND 1 \<noteq> 0" by (simp add: completes_ok_def)
  then show ?thesis by (simp add: sdcard_wait_data_done_def wait_data_done_poll_done)
qed

lemma ok_dma_done_poll:
  assumes "completes_ok hw" and "r = BLOCK2MEM_DMA_DONE \<or> r = MEM2BLOCK_DMA_DONE"
  shows "dma_done_poll hw r tr = Some (tr @ [Rd r (hw tr r)])"
proof -
  from assms have "hw tr r AND 1 \<noteq> 0" by (auto simp: completes_ok_def)
  then show ?thesis by (rule dma_done_poll_done)
qed

lemma opcodes_Nil: "opcodes [] = []"
  by (simp add: opcodes_def writes_to_Nil)

lemma opcodes_Cons: "opcodes (e # evs) = map (drop_bit 8) (written CMD_COMMAND e) @ opcodes evs"
  by (simp add: opcodes_def writes_to_Cons)

lemma opcodes_cmd_writes: "opcodes (cmd_writes arg cmd rsp) = [ucast cmd]"
  using opcode_of_command_word[of cmd rsp]
  by (simp add: opcodes_def writes_to_def cmd_writes_def)

lemma writes_to_cmd_writes:
  "writes_to r (cmd_writes arg cmd rsp) =
     (if r = CMD_ARGUMENT then [arg]
      else if r = CMD_COMMAND then [push_bit 8 (ucast cmd) OR ucast rsp]
      else if r = CMD_SEND then [1] else [])"
  by (simp add: writes_to_def cmd_writes_def)

lemma ok_read_chunk:
  assumes "completes_ok hw"
  shows "\<exists>evs. sdcard_read_chunk cfg hw block n buf tr = Some (tr @ evs)
     \<and> opcodes evs = (if SDCARD_CMD23_SUPPORT cfg then [23] else [])
                       @ (if 1 < n then [18, 12] else [17])
     \<and> writes_to CMD_ARGUMENT evs = (if SDCARD_CMD23_SUPPORT cfg then [n] else [])
                       @ (if 1 < n then [block, 0] else [block])"
proof -
  note ok = ok_send_command[OF assms] ok_send_command_until_ok[OF assms]
    ok_wait_data_done[OF assms] ok_dma_done_poll[OF assms]
  note defs = sdcard_read_chunk_def sdcard_read_multiple_block_def sdcard_read_single_block_def
    sdcard_stop_transmission_def sdcard_set_block_count_def csr_write_def csr_write64_def Let_def
  note proj = opcodes_append opcodes_Cons opcodes_Nil opcodes_cmd_writes
    writes_to_append writes_to_Cons writes_to_Nil writes_to_cmd_writes
  show ?thesis
  proof (cases "SDCARD_CMD23_SUPPORT cfg"; cases "1 < n")
    assume a: "SDCARD_CMD23_SUPPORT cfg" "1 < n"
    then obtain evs where "sdcard_read_chunk cfg hw block n buf tr = Some (tr @ evs)"
      "opcodes evs = [23, 18, 12]" "writes_to CMD_ARGUMENT evs = [n, block, 0]"
      by (simp add: defs ok proj)
    with a show ?thesis by auto
  next
    assume a: "SDCARD_CMD23_SUPPORT cfg" "\<not> 1 < n"
    then obtain evs where "sdcard_read_chunk cfg hw block n buf tr = Some (tr @ evs)"
      "opcodes evs = [23, 17]" "writes_to CMD_ARGUMENT evs = [n, block]"
      by (simp add: defs ok proj)
    with a show ?thesis by auto
  next
    assume a: "\<not> SDCARD_CMD23_SUPPORT cfg" "1 < n"
    then obtain evs where "sdcard_read_chunk cfg hw block n buf tr = Some (tr @ evs)"
      "opcodes evs = [18, 12]" "writes_to CMD_ARGUMENT evs = [block, 0]"
      by (simp add: defs ok proj)
    with a show ?thesis by auto
  next
    assume a: "\<not> SDCARD_CMD23_SUPPORT cfg" "\<not> 1 < n"
    then obtain evs where "sdcard_read_chunk cfg hw block n buf tr = Some (tr @ evs)"
      "opcodes evs = [17]" "writes_to CMD_ARGUMENT evs = [block]"
      by (simp add: defs ok proj)
    with a show ?thesis by auto
  qed
qed

lemma ok_read_loop_returns:
  "completes_ok hw \<Longrightarrow> \<exists>tr'. sdcard_read_loop cfg hw block count buf tr = Some tr'"
proof (induction cfg hw block count buf tr rule: sdcard_read_loop.induct)
  case (1 cfg hw block count buf tr)
  show ?case
  proof (cases "count = 0")
    case True
    then show ?thesis by (simp add: sdcard_read_loop.simps[of cfg hw block 0])
  next
    case False
    define n where "n = (if SDCARD_CMD18_SUPPORT cfg then count else 1)"
    from ok_read_chunk[OF "1.prems", of cfg block n buf tr] obtain evs where
      ch: "sdcard_read_chunk cfg hw block n buf tr = Some (tr @ evs)" by blast
    from "1.IH"[OF False n_def ch "1.prems"] obtain tr' where
      "sdcard_read_loop cfg hw (block + n) (count - n) (buf + 512 * n) (tr @ evs) = Some tr'"
      by blast
    with ch False show ?thesis
      by (simp add: sdcard_read_loop.simps[of cfg hw block count] n_def Let_def)
  qed
qed


lemma write_single_block_eq:
  "sdcard_write_single_block cfg hw block tr =
     map_option (Pair SD_OK)
       (sdcard_send_command_until_ok hw block 24
          (data_rsp cfg (SDCARD_CTRL_DATA_TRANSFER_WRITE cfg))
          (tr @ [Wr BLOCK_LENGTH 512, Wr BLOCK_COUNT 1]))"
  by (simp add: sdcard_write_single_block_def csr_write_def data_rsp_def Let_def
        split: option.splits)

lemma write_multiple_block_eq:
  "sdcard_write_multiple_block cfg hw block n tr =
     map_option (Pair SD_OK)
       (sdcard_send_command_until_ok hw block 25
          (data_rsp cfg (SDCARD_CTRL_DATA_TRANSFER_WRITE cfg))
          (tr @ [Wr BLOCK_LENGTH 512, Wr BLOCK_COUNT n]))"
  by (simp add: sdcard_write_multiple_block_def csr_write_def data_rsp_def Let_def
        split: option.splits)

lemma read_single_block_eq:
  "sdcard_read_single_block cfg hw block tr =
     Option.bind
       (sdcard_send_command_until_ok hw block 17
          (data_rsp cfg (SDCARD_CTRL_DATA_TRANSFER_READ cfg))
          (tr @ [Wr BLOCK_LENGTH 512, Wr BLOCK_COUNT 1]))
       (sdcard_wait_data_done hw)"
  by (simp add: sdcard_read_single_block_def csr_write_def data_rsp_def Let_def
        split: option.splits)

lemma read_multiple_block_eq:
  "sdcard_read_multiple_block cfg hw block n tr =
     Option.bind
       (sdcard_send_command_until_ok hw block 18
          (data_rsp cfg (SDCARD_CTRL_DATA_TRANSFER_READ cfg))
          (tr @ [Wr BLOCK_LENGTH 512, Wr BLOCK_COUNT n]))
       (sdcard_wait_data_done hw)"
  by (simp add: sdcard_read_multiple_block_def csr_write_def data_rsp_def Let_def
        split: option.splits)

lemma ok_write_chunk:
  assumes "completes_ok hw"
  shows "\<exists>tr'. sdcard_write_chunk cfg hw block n buf tr = Some tr'"
  by (simp add: sdcard_write_chunk_def write_single_block_eq write_multiple_block_eq
        sdcard_stop_transmission_def sdcard_set_block_count_def Let_def
        ok_send_command[OF assms] ok_send_command_until_ok[OF assms] ok_dma_done_poll[OF assms])

lemma ok_write_loop_returns:
  "completes_ok hw \<Longrightarrow> \<exists>tr'. sdcard_write_loop cfg hw block count buf tr = Some tr'"
proof (induction cfg hw block count buf tr rule: sdcard_write_loop.induct)
  case (1 cfg hw block count buf tr)
  show ?case
  proof (cases "count = 0")
    case True
    then show ?thesis by (simp add: sdcard_write_loop.simps[of cfg hw block 0])
  next
    case False
    define n where "n = (if SDCARD_CMD25_SUPPORT cfg then count else 1)"
    from ok_write_chunk[OF "1.prems", of cfg block n buf tr] obtain t1 where
      ch: "sdcard_write_chunk cfg hw block n buf tr = Some t1" by blast
    from "1.IH"[OF False n_def ch "1.prems"] obtain tr' where
      "sdcard_write_loop cfg hw (block + n) (count - n) (buf + 512 * n) t1 = Some tr'"
      by blast
    with ch False show ?thesis
      by (simp add: sdcard_write_loop.simps[of cfg hw block count] n_def Let_def)
  qed
qed

lemma hw_crc_once_first:
  assumes "writes_to CMD_SEND tr = []"
  shows "sdcard_send_command hw_crc_once arg cmd rsp tr =
     Some (SD_CRCERROR, tr @ cmd_writes arg cmd rsp @ [Rd CMD_EVENT 9, Busy_wait_us 10])"
proof -
  let ?t = "tr @ cmd_writes arg cmd rsp"
  from assms have "hw_crc_once ?t CMD_EVENT = 9"
    by (simp add: hw_crc_once_def writes_to_append writes_to_cmd_writes)
  then have "sdcard_wait_cmd_done hw_crc_once ?t =
      Some (SD_CRCERROR, ?t @ [Rd CMD_EVENT 9, Busy_wait_us 10])"
    by (simp add: sdcard_wait_cmd_done_def wait_cmd_done_poll_done)
  then show ?thesis
    by (simp add: sdcard_send_command_def csr_write_def cmd_writes_def)
qed

lemma hw_crc_once_later:
  assumes "writes_to CMD_SEND tr \<noteq> []"
  shows "sdcard_send_command hw_crc_once arg cmd rsp tr =
     Some (SD_OK, tr @ cmd_writes arg cmd rsp @ [Rd CMD_EVENT 1, Busy_wait_us 10])"
proof -
  let ?t = "tr @ cmd_writes arg cmd rsp"
  from assms have "hw_crc_once ?t CMD_EVENT = 1"
    by (simp add: hw_crc_once_def writes_to_append writes_to_cmd_writes)
  then have "sdcard_wait_cmd_done hw_crc_once ?t =
      Some (SD_OK, ?t @ [Rd CMD_EVENT 1, Busy_wait_us 10])"
    by (simp add: sdcard_wait_cmd_done_def wait_cmd_done_poll_done)
  then show ?thesis
    by (simp add: sdcard_send_command_def csr_write_def cmd_writes_def)
qed

lemma ok_until_ok_shape:
  assumes "completes_ok hw"
  shows "\<exists>evs. sdcard_send_command_until_ok hw arg cmd rsp (tr @ g) = Some (tr @ g @ evs)
           \<and> opcodes evs = [ucast cmd]"
proof -
  let ?e = "cmd_writes arg cmd rsp
              @ [Rd CMD_EVENT (hw ((tr @ g) @ cmd_writes arg cmd rsp) CMD_EVENT), Busy_wait_us 10]"
  have "sdcard_send_command_until_ok hw arg cmd rsp (tr @ g) = Some (tr @ g @ ?e)"
    using ok_send_command_until_ok[OF assms, of arg cmd rsp "tr @ g"] by simp
  moreover have "opcodes ?e = [ucast cmd]"
    by (simp add: opcodes_append opcodes_Cons opcodes_Nil opcodes_cmd_writes)
  ultimately show ?thesis by blast
qed

lemma ok_until_ok_then_data:
  assumes "completes_ok hw"
  shows "\<exists>r evs. Option.bind (sdcard_send_command_until_ok hw arg cmd rsp (tr @ g))
                    (sdcard_wait_data_done hw) = Some (r, tr @ g @ evs)
           \<and> opcodes evs = [ucast cmd]"
proof -
  from ok_until_ok_shape[OF assms, of arg cmd rsp tr g] obtain e where
    u: "sdcard_send_command_until_ok hw arg cmd rsp (tr @ g) = Some (tr @ g @ e)"
    and o: "opcodes e = [ucast cmd]" by blast
  let ?t = "tr @ g @ e"
  from ok_wait_data_done[OF assms, of ?t] obtain r where
    w: "sdcard_wait_data_done hw ?t = Some (r, ?t @ [Rd DATA_EVENT (hw ?t DATA_EVENT)])"
    by blast
  have "Option.bind (sdcard_send_command_until_ok hw arg cmd rsp (tr @ g))
          (sdcard_wait_data_done hw)
        = Some (r, tr @ g @ (e @ [Rd DATA_EVENT (hw ?t DATA_EVENT)]))"
    using u w by simp
  moreover have "opcodes (e @ [Rd DATA_EVENT (hw ?t DATA_EVENT)]) = [ucast cmd]"
    using o by (simp add: opcodes_append opcodes_Cons opcodes_Nil)
  ultimately show ?thesis by blast
qed

lemma ok_block_commands:
  assumes "completes_ok hw"
  shows "\<exists>r evs. sdcard_read_single_block cfg hw block tr
                    = Some (r, tr @ [Wr BLOCK_LENGTH 512, Wr BLOCK_COUNT 1] @ evs)
           \<and> opcodes evs = [17]"
    and "\<exists>r evs. sdcard_read_multiple_block cfg hw block n tr
                    = Some (r, tr @ [Wr BLOCK_LENGTH 512, Wr BLOCK_COUNT n] @ evs)
           \<and> opcodes evs = [18]"
    and "\<exists>evs. sdcard_write_single_block cfg hw block tr
                    = Some (SD_OK, tr @ [Wr BLOCK_LENGTH 512, Wr BLOCK_COUNT 1] @ evs)
           \<and> opcodes evs = [24]"
    and "\<exists>evs. sdcard_write_multiple_block cfg hw block n tr
                    = Some (SD_OK, tr @ [Wr BLOCK_LENGTH 512, Wr BLOCK_COUNT n] @ evs)
           \<and> opcodes evs = [25]"
proof -
  let ?rd = "data_rsp cfg (SDCARD_CTRL_DATA_TRANSFER_READ cfg)"
  let ?wr = "data_rsp cfg (SDCARD_CTRL_DATA_TRANSFER_WRITE cfg)"
  let ?g1 = "[Wr BLOCK_LENGTH 512, Wr BLOCK_COUNT 1]"
  let ?gn = "[Wr BLOCK_LENGTH 512, Wr BLOCK_COUNT n]"
  show "\<exists>r evs. sdcard_read_single_block cfg hw block tr
                    = Some (r, tr @ [Wr BLOCK_LENGTH 512, Wr BLOCK_COUNT 1] @ evs)
           \<and> opcodes evs = [17]"
    using ok_until_ok_then_data[OF assms, of block 17 ?rd tr ?g1]
    by (simp add: read_single_block_eq)
  show "\<exists>r evs. sdcard_read_multiple_block cfg hw block n tr
                    = Some (r, tr @ [Wr BLOCK_LENGTH 512, Wr BLOCK_COUNT n] @ evs)
           \<and> opcodes evs = [18]"
    using ok_until_ok_then_data[OF assms, of block 18 ?rd tr ?gn]
    by (simp add: read_multiple_block_eq)
  show "\<exists>evs. sdcard_write_single_block cfg hw block tr
                    = Some (SD_OK, tr @ [Wr BLOCK_LENGTH 512, Wr BLOCK_COUNT 1] @ evs)
           \<and> opcodes evs = [24]"
    using ok_until_ok_shape[OF assms, of block 24 ?wr tr ?g1]
    by (auto simp: write_single_block_eq)
  show "\<exists>evs. sdcard_write_multiple_block cfg hw block n tr
                    = Some (SD_OK, tr @ [Wr BLOCK_LENGTH 512, Wr BLOCK_COUNT n] @ evs)
           \<and> opcodes evs = [25]"
    using ok_until_ok_shape[OF assms, of block 25 ?wr tr ?gn]
    by (auto simp: write_multiple_block_eq)
qed

lemma hw_ok_completes: "completes_ok hw_ok"
  by (simp add: completes_ok_def hw_ok_def)

lemma read_100_10_run: "sdcard_read litex_cfg hw_ok 100 10 0 [] = Some read_100_10_events"
  by (simp add: sdcard_read_def sdcard_read_loop.simps sdcard_read_chunk_def
        sdcard_read_multiple_block_def sdcard_stop_transmission_def hw_ok_run
        hw_ok_def litex_cfg_def csr_write_def
        csr_write64_def cmd_writes_def flush_cpu_dcache_def flush_l2_cache_def
        read_100_10_events_def)

section \<open>The register writes of the bring-up steps\<close>

lemma send_command_writes:
  assumes "sdcard_send_command hw arg cmd rsp tr = Some (r, tr')"
  shows "\<exists>evs. tr' = tr @ evs \<and> writes evs = cmd_writes arg cmd rsp"
proof -
  from send_command_appends[OF assms] obtain evs where
    e: "tr' = tr @ evs" "command_evs arg cmd rsp evs" by blast
  from command_evs_decompose[OF e(2)] have "writes evs = cmd_writes arg cmd rsp"
    by (auto simp: writes_append writes_cmd_writes writes_cmd_polls)
  with e show ?thesis by blast
qed

lemma wait_data_done_writes:
  assumes "sdcard_wait_data_done hw tr = Some (r, tr')"
  shows "\<exists>evs. tr' = tr @ evs \<and> writes evs = []"
proof -
  from wait_data_done_appends[OF assms] obtain evs where
    e: "tr' = tr @ evs" "data_wait_evs evs" by blast
  then have "writes evs = []" by (simp add: data_wait_evs_def writes_data_polls)
  with e show ?thesis by blast
qed

lemma set_clk_freq_quiet:
  "sdcard_set_clk_freq cfg clk_freq 0 tr = tr @ [Wr PHY_CLOCKER_DIVIDER (clk_divider cfg clk_freq)]"
  by (simp add: sdcard_set_clk_freq_def clk_divider_def Let_def csr_write_def)

lemma decode_rca_writes:
  assumes "sdcard_decode_rca hw tr = (rca, tr')"
  shows "\<exists>evs. tr' = tr @ evs \<and> writes evs = []"
  using assms
  by (auto simp: sdcard_decode_rca_def csr_rd_buf_response_def csr_read_def writes_def
        split: prod.splits)

lemma rd_buf_response_writes:
  assumes "csr_rd_buf_response hw tr = (r, tr')"
  shows "\<exists>evs. tr' = tr @ evs \<and> writes evs = []"
  using assms
  by (auto simp: csr_rd_buf_response_def csr_read_def writes_def split: prod.splits)

lemma data_command_writes:
  assumes "(case sdcard_send_command_until_ok hw arg cmd rsp (tr @ g) of
              None \<Rightarrow> None | Some tr3 \<Rightarrow> sdcard_wait_data_done hw tr3) = Some (r, tr')"
  shows "\<exists>evs k. tr' = tr @ g @ evs
           \<and> writes evs = concat (replicate (Suc k) (cmd_writes arg cmd rsp))"
proof -
  from assms obtain t3 where
    u: "sdcard_send_command_until_ok hw arg cmd rsp (tr @ g) = Some t3"
    and w: "sdcard_wait_data_done hw t3 = Some (r, tr')"
    by (auto split: option.splits)
  from send_command_until_ok_appends[OF u] obtain c k where
    c: "t3 = (tr @ g) @ c" "writes c = concat (replicate (Suc k) (cmd_writes arg cmd rsp))"
    by blast
  from wait_data_done_writes[OF w] obtain e where e: "tr' = t3 @ e" "writes e = []" by blast
  from c e show ?thesis
    by (intro exI[of _ "c @ e"] exI[of _ k]) (simp add: writes_append)
qed

lemma switch_writes:
  assumes "sdcard_switch cfg hw mode grp val tr = Some (r, tr')"
  shows "\<exists>evs k. tr' = tr @ [Wr BLOCK_LENGTH 64, Wr BLOCK_COUNT 1] @ evs
           \<and> writes evs = concat (replicate (Suc k)
                (cmd_writes (switch_arg mode grp val) 6
                   (data_rsp cfg (SDCARD_CTRL_DATA_TRANSFER_READ cfg))))"
  using assms data_command_writes[of hw "switch_arg mode grp val" 6
      "data_rsp cfg (SDCARD_CTRL_DATA_TRANSFER_READ cfg)" tr
      "[Wr BLOCK_LENGTH 64, Wr BLOCK_COUNT 1]" r tr']
  by (simp add: sdcard_switch_def Let_def csr_write_def switch_arg_def data_rsp_def)

lemma app_send_scr_writes:
  assumes "sdcard_app_send_scr cfg hw tr = Some (r, tr')"
  shows "\<exists>evs k. tr' = tr @ [Wr BLOCK_LENGTH 8, Wr BLOCK_COUNT 1] @ evs
           \<and> writes evs = concat (replicate (Suc k)
                (cmd_writes 0 51 (data_rsp cfg (SDCARD_CTRL_DATA_TRANSFER_READ cfg))))"
  using assms data_command_writes[of hw 0 51
      "data_rsp cfg (SDCARD_CTRL_DATA_TRANSFER_READ cfg)" tr
      "[Wr BLOCK_LENGTH 8, Wr BLOCK_COUNT 1]" r tr']
  by (simp add: sdcard_app_send_scr_def Let_def csr_write_def data_rsp_def)

lemma idle_loop_writes:
  "sdcard_init_idle_loop cfg hw t tr = Some (t', tr') \<Longrightarrow>
   \<exists>evs i. tr' = tr @ evs \<and> writes evs = concat (replicate i (idle_attempt cfg))
      \<and> i \<le> unat t \<and> (t' \<noteq> 0 \<longrightarrow> 0 < i) \<and> (t' = 0 \<longrightarrow> i = unat t)"
proof (induction cfg hw t tr rule: sdcard_init_idle_loop.induct)
  case (1 cfg hw t tr)
  show ?case
  proof (cases "0 < t")
    case False
    with "1.prems" have "t' = t" "tr' = tr" "t = 0"
      by (simp_all add: sdcard_init_idle_loop.simps[of cfg hw t] word_greater_zero_iff)
    then show ?thesis by (intro exI[of _ "[]"] exI[of _ 0]) (simp add: writes_def)
  next
    case True
    let ?t2 = "busy_wait 1 (csr_write PHY_INIT_INITIALIZE 1 tr)"
    have t2: "?t2 = tr @ [Wr PHY_INIT_INITIALIZE 1, Busy_wait 1]"
      by (simp add: csr_write_def busy_wait_def)
    from "1.prems" True obtain r t3 where
      g: "sdcard_go_idle cfg hw ?t2 = Some (r, t3)"
      and rest: "if r = SD_OK then t' = t \<and> tr' = t3
                 else sdcard_init_idle_loop cfg hw (t - 1) (busy_wait 1 t3) = Some (t', tr')"
      by (auto simp: sdcard_init_idle_loop.simps[of cfg hw t] Let_def
            split: option.splits if_splits)
    from g send_command_writes obtain e1 where
      e1: "t3 = (tr @ [Wr PHY_INIT_INITIALIZE 1, Busy_wait 1]) @ e1"
        "writes e1 = cmd_writes 0 0 (ucast (SDCARD_CTRL_RESPONSE_NONE cfg))"
      unfolding sdcard_go_idle_def t2 by blast
    have w1: "writes ([Wr PHY_INIT_INITIALIZE 1, Busy_wait 1] @ e1) = idle_attempt cfg"
      using e1(2) by (simp add: writes_append idle_attempt_def) (simp add: writes_def)
    have tpos: "0 < unat t" using True by (simp add: word_less_nat_alt)
    show ?thesis
    proof (cases "r = SD_OK")
      case True
      with rest have "t' = t" "tr' = t3" by simp_all
      with e1(1) w1 tpos \<open>0 < t\<close> show ?thesis
        by (intro exI[of _ "[Wr PHY_INIT_INITIALIZE 1, Busy_wait 1] @ e1"] exI[of _ 1]) auto
    next
      case False
      with rest have lp: "sdcard_init_idle_loop cfg hw (t - 1) (busy_wait 1 t3) = Some (t', tr')"
        by simp
      from "1.IH"[OF \<open>0 < t\<close> refl refl g refl False lp] obtain e2 i where
        e2: "tr' = busy_wait 1 t3 @ e2" "writes e2 = concat (replicate i (idle_attempt cfg))"
          "i \<le> unat (t - 1)" "t' \<noteq> 0 \<longrightarrow> 0 < i" "t' = 0 \<longrightarrow> i = unat (t - 1)"
        by blast
      have u: "unat (t - 1) = unat t - 1" using \<open>0 < t\<close> by (simp add: unat_minus_one)
      let ?evs = "([Wr PHY_INIT_INITIALIZE 1, Busy_wait 1] @ e1) @ [Busy_wait 1] @ e2"
      have "tr' = tr @ ?evs" using e1(1) e2(1) by (simp add: busy_wait_def)
      moreover have "writes ?evs = concat (replicate (Suc i) (idle_attempt cfg))"
        using w1 e2(2) by (simp only: writes_append) (simp add: writes_def)
      moreover have "Suc i \<le> unat t" using e2(3) u tpos by simp
      moreover have "t' = 0 \<longrightarrow> Suc i = unat t" using e2(5) u tpos by simp
      ultimately show ?thesis by (intro exI[of _ ?evs] exI[of _ "Suc i"]) simp
    qed
  qed
qed

lemma op_cond_loop_writes:
  "sdcard_init_op_cond_loop cfg hw t tr = Some (t', tr') \<Longrightarrow>
   \<exists>evs j. tr' = tr @ evs \<and> writes evs = concat (replicate j (op_cond_attempt cfg))
      \<and> j \<le> unat t \<and> (t' \<noteq> 0 \<longrightarrow> 0 < j)"
proof (induction cfg hw t tr rule: sdcard_init_op_cond_loop.induct)
  case (1 cfg hw t tr)
  show ?case
  proof (cases "0 < t")
    case False
    with "1.prems" have "t' = t" "tr' = tr" "t = 0"
      by (simp_all add: sdcard_init_op_cond_loop.simps[of cfg hw t] word_greater_zero_iff)
    then show ?thesis by (intro exI[of _ "[]"] exI[of _ 0]) (simp add: writes_def)
  next
    case True
    from "1.prems" True obtain r0 t1 r1 t2 where
      a: "sdcard_app_cmd cfg hw 0 tr = Some (r0, t1)"
      and b: "sdcard_app_send_op_cond cfg hw 1 t1 = Some (r1, t2)"
      by (auto simp: sdcard_init_op_cond_loop.simps[of cfg hw t] split: option.splits)
    from a send_command_writes obtain e1 where
      e1: "t1 = tr @ e1" "writes e1 = cmd_writes 0 55 (ucast (SDCARD_CTRL_RESPONSE_SHORT cfg))"
      unfolding sdcard_app_cmd_def by fastforce
    from b send_command_writes[of hw "0x70ff8000" 41
           "ucast (SDCARD_CTRL_RESPONSE_SHORT_BUSY cfg)" t1 r1 t2] obtain e2 where
      e2: "t2 = t1 @ e2"
        "writes e2 = cmd_writes 0x70ff8000 41 (ucast (SDCARD_CTRL_RESPONSE_SHORT_BUSY cfg))"
      by (auto simp: sdcard_app_send_op_cond_def Let_def)
    have w12: "writes (e1 @ e2) = op_cond_attempt cfg"
      using e1(2) e2(2) by (simp add: writes_append op_cond_attempt_def)
    have t2: "t2 = tr @ e1 @ e2" using e1(1) e2(1) by simp
    have tpos: "0 < unat t" using True by (simp add: word_less_nat_alt)
    have u: "unat (t - 1) = unat t - 1" using True by (simp add: unat_minus_one)
    have step: ?thesis
      if lp: "sdcard_init_op_cond_loop cfg hw (t - 1) (busy_wait 1 y) = Some (t', tr')"
        and y: "y = t2 @ e3" "writes e3 = []"
        and ih: "\<exists>evs j. tr' = busy_wait 1 y @ evs
                  \<and> writes evs = concat (replicate j (op_cond_attempt cfg))
                  \<and> j \<le> unat (t - 1) \<and> (t' \<noteq> 0 \<longrightarrow> 0 < j)" for y e3
    proof -
      from ih obtain e4 j where
        e4: "tr' = busy_wait 1 y @ e4" "writes e4 = concat (replicate j (op_cond_attempt cfg))"
          "j \<le> unat (t - 1)" by blast
      let ?evs = "(e1 @ e2) @ e3 @ [Busy_wait 1] @ e4"
      have "tr' = tr @ ?evs" using e4(1) y(1) t2 by (simp add: busy_wait_def)
      moreover have "writes ?evs = concat (replicate (Suc j) (op_cond_attempt cfg))"
        using w12 y(2) e4(2) by (simp only: writes_append) (simp add: writes_def)
      moreover have "Suc j \<le> unat t" using e4(3) u tpos by simp
      ultimately show ?thesis by (intro exI[of _ ?evs] exI[of _ "Suc j"]) simp
    qed
    show ?thesis
    proof (cases "r1 = SD_OK")
      case ok: True
      obtain r t3 where rd: "csr_rd_buf_response hw t2 = (r, t3)" by fastforce
      from rd_buf_response_writes[OF rd] obtain e3 where
        e3: "t3 = t2 @ e3" "writes e3 = []" by blast
      show ?thesis
      proof (cases "(r ! 3) AND 0x80000000 \<noteq> 0")
        case True
        with "1.prems" \<open>0 < t\<close> a b ok rd have "t' = t" "tr' = t3"
          by (simp_all add: sdcard_init_op_cond_loop.simps[of cfg hw t])
        moreover have "writes ((e1 @ e2) @ e3) = concat (replicate 1 (op_cond_attempt cfg))"
          using w12 e3(2) by (simp add: writes_append)
        ultimately show ?thesis using t2 e3(1) tpos \<open>0 < t\<close>
          by (intro exI[of _ "(e1 @ e2) @ e3"] exI[of _ 1]) auto
      next
        case False
        with "1.prems" \<open>0 < t\<close> a b ok rd have
          lp: "sdcard_init_op_cond_loop cfg hw (t - 1) (busy_wait 1 t3) = Some (t', tr')"
          by (simp add: sdcard_init_op_cond_loop.simps[of cfg hw t])
        from "1.IH"(1)[OF \<open>0 < t\<close> a refl b refl ok rd[symmetric] False lp]
        show ?thesis by (intro step[OF lp e3]) 
      qed
    next
      case False
      with "1.prems" \<open>0 < t\<close> a b have
        lp: "sdcard_init_op_cond_loop cfg hw (t - 1) (busy_wait 1 t2) = Some (t', tr')"
        by (simp add: sdcard_init_op_cond_loop.simps[of cfg hw t])
      from "1.IH"(2)[OF \<open>0 < t\<close> a refl b refl False lp]
      show ?thesis by (intro step[OF lp, of "[]"]) (simp_all add: writes_def)
    qed
  qed
qed

lemma init_success_chain:
  assumes "sdcard_init cfg hw tr = Some (r, tr')" and "r \<noteq> 0"
  shows "\<exists>to1 t1 t2 to2 t3 t4 t5 rca t6 t7 t8 t9 t10 t11 t12 t13 t14.
    sdcard_init_idle_loop cfg hw 1000
       (busy_wait 1 (sdcard_set_clk_freq cfg SDCARD_CLK_FREQ_INIT 0 tr)) = Some (to1, t1)
    \<and> to1 \<noteq> 0
    \<and> sdcard_send_ext_csd cfg hw t1 = Some (SD_OK, t2)
    \<and> sdcard_init_op_cond_loop cfg hw 1000
       (busy_wait 1 (sdcard_set_clk_freq cfg SDCARD_CLK_FREQ 0 t2)) = Some (to2, t3)
    \<and> to2 \<noteq> 0
    \<and> sdcard_all_send_cid cfg hw t3 = Some (SD_OK, t4)
    \<and> sdcard_set_relative_address cfg hw t4 = Some (SD_OK, t5)
    \<and> sdcard_decode_rca hw t5 = (rca, t6)
    \<and> sdcard_send_cid cfg hw rca t6 = Some (SD_OK, t7)
    \<and> sdcard_send_csd cfg hw rca t7 = Some (SD_OK, t8)
    \<and> sdcard_select_card cfg hw rca t8 = Some (SD_OK, t9)
    \<and> sdcard_app_cmd cfg hw rca t9 = Some (SD_OK, t10)
    \<and> sdcard_app_set_bus_width cfg hw t10 = Some (SD_OK, t11)
    \<and> sdcard_switch cfg hw (SD_SWITCH_SWITCH cfg) (SD_GROUP_ACCESSMODE cfg)
         (SD_SPEED_SDR25 cfg) (csr_write PHY_SETTINGS (SD_PHY_SPEED_4X cfg) t11)
       = Some (SD_OK, t12)
    \<and> sdcard_app_cmd cfg hw rca t12 = Some (SD_OK, t13)
    \<and> sdcard_app_send_scr cfg hw t13 = Some (SD_OK, t14)
    \<and> sdcard_app_set_blocklen cfg hw 512 t14 = Some (SD_OK, tr')
    \<and> r = 1"
  using assms unfolding sdcard_init_def Let_def
  by (auto simp: bind_eq_Some_conv split: if_splits prod.splits)


lemma init_success_writes:
  assumes "sdcard_init cfg hw tr = Some (r, tr')" and "r \<noteq> 0"
  shows "r = 1 \<and> (\<exists>i j k m rca. 0 < i \<and> i \<le> 1000 \<and> 0 < j \<and> j \<le> 1000
           \<and> writes (new_events tr tr') = init_writes cfg i j (Suc k) (Suc m) rca)"
proof -
  from init_success_chain[OF assms] obtain to1 t1 t2 to2 t3 t4 t5 rca t6 t7 t8 t9 t10 t11
      t12 t13 t14 where
    s1: "sdcard_init_idle_loop cfg hw 1000
       (busy_wait 1 (sdcard_set_clk_freq cfg SDCARD_CLK_FREQ_INIT 0 tr)) = Some (to1, t1)"
    and to1: "to1 \<noteq> 0"
    and s2: "sdcard_send_ext_csd cfg hw t1 = Some (SD_OK, t2)"
    and s3: "sdcard_init_op_cond_loop cfg hw 1000
       (busy_wait 1 (sdcard_set_clk_freq cfg SDCARD_CLK_FREQ 0 t2)) = Some (to2, t3)"
    and to2: "to2 \<noteq> 0"
    and s4: "sdcard_all_send_cid cfg hw t3 = Some (SD_OK, t4)"
    and s5: "sdcard_set_relative_address cfg hw t4 = Some (SD_OK, t5)"
    and s6: "sdcard_decode_rca hw t5 = (rca, t6)"
    and s7: "sdcard_send_cid cfg hw rca t6 = Some (SD_OK, t7)"
    and s8: "sdcard_send_csd cfg hw rca t7 = Some (SD_OK, t8)"
    and s9: "sdcard_select_card cfg hw rca t8 = Some (SD_OK, t9)"
    and s10: "sdcard_app_cmd cfg hw rca t9 = Some (SD_OK, t10)"
    and s11: "sdcard_app_set_bus_width cfg hw t10 = Some (SD_OK, t11)"
    and s12: "sdcard_switch cfg hw (SD_SWITCH_SWITCH cfg) (SD_GROUP_ACCESSMODE cfg)
         (SD_SPEED_SDR25 cfg) (csr_write PHY_SETTINGS (SD_PHY_SPEED_4X cfg) t11)
       = Some (SD_OK, t12)"
    and s13: "sdcard_app_cmd cfg hw rca t12 = Some (SD_OK, t13)"
    and s14: "sdcard_app_send_scr cfg hw t13 = Some (SD_OK, t14)"
    and s15: "sdcard_app_set_blocklen cfg hw 512 t14 = Some (SD_OK, tr')"
    and r: "r = 1"
    by blast
  let ?c0 = "[Wr PHY_CLOCKER_DIVIDER (clk_divider cfg SDCARD_CLK_FREQ_INIT), Busy_wait 1]"
  let ?c1 = "[Wr PHY_CLOCKER_DIVIDER (clk_divider cfg SDCARD_CLK_FREQ), Busy_wait 1]"
  from idle_loop_writes[OF s1] to1 obtain e1 i where
    e1: "t1 = (tr @ ?c0) @ e1" "writes e1 = concat (replicate i (idle_attempt cfg))"
      "i \<le> 1000" "0 < i"
    by (auto simp: set_clk_freq_quiet busy_wait_def)
  from send_command_writes[OF s2[unfolded sdcard_send_ext_csd_def Let_def]] obtain e2 where
    e2: "t2 = t1 @ e2" "writes e2 = cmd_writes 0x1aa 8 (ucast (SDCARD_CTRL_RESPONSE_SHORT cfg))"
    by blast
  from op_cond_loop_writes[OF s3] to2 obtain e3 j where
    e3: "t3 = (t2 @ ?c1) @ e3" "writes e3 = concat (replicate j (op_cond_attempt cfg))"
      "j \<le> 1000" "0 < j"
    by (auto simp: set_clk_freq_quiet busy_wait_def)
  from send_command_writes[OF s4[unfolded sdcard_all_send_cid_def]] obtain e4 where
    e4: "t4 = t3 @ e4" "writes e4 = cmd_writes 0 2 (ucast (SDCARD_CTRL_RESPONSE_LONG cfg))"
    by blast
  from send_command_writes[OF s5[unfolded sdcard_set_relative_address_def]] obtain e5 where
    e5: "t5 = t4 @ e5" "writes e5 = cmd_writes 0 3 (ucast (SDCARD_CTRL_RESPONSE_SHORT cfg))"
    by blast
  from decode_rca_writes[OF s6] obtain e6 where e6: "t6 = t5 @ e6" "writes e6 = []" by blast
  from send_command_writes[OF s7[unfolded sdcard_send_cid_def]] obtain e7 where
    e7: "t7 = t6 @ e7"
      "writes e7 = cmd_writes (push_bit 16 (ucast rca)) 10 (ucast (SDCARD_CTRL_RESPONSE_LONG cfg))"
    by blast
  from send_command_writes[OF s8[unfolded sdcard_send_csd_def]] obtain e8 where
    e8: "t8 = t7 @ e8"
      "writes e8 = cmd_writes (push_bit 16 (ucast rca)) 9 (ucast (SDCARD_CTRL_RESPONSE_LONG cfg))"
    by blast
  from send_command_writes[OF s9[unfolded sdcard_select_card_def]] obtain e9 where
    e9: "t9 = t8 @ e9"
      "writes e9 = cmd_writes (push_bit 16 (ucast rca)) 7
                     (ucast (SDCARD_CTRL_RESPONSE_SHORT_BUSY cfg))"
    by blast
  from send_command_writes[OF s10[unfolded sdcard_app_cmd_def]] obtain e10 where
    e10: "t10 = t9 @ e10"
      "writes e10 = cmd_writes (push_bit 16 (ucast rca)) 55
                      (ucast (SDCARD_CTRL_RESPONSE_SHORT cfg))"
    by blast
  from send_command_writes[OF s11[unfolded sdcard_app_set_bus_width_def]] obtain e11 where
    e11: "t11 = t10 @ e11" "writes e11 = cmd_writes 2 6 (ucast (SDCARD_CTRL_RESPONSE_SHORT cfg))"
    by blast
  from switch_writes[OF s12] obtain e12 k where
    e12: "t12 = (t11 @ [Wr PHY_SETTINGS (SD_PHY_SPEED_4X cfg)])
                @ [Wr BLOCK_LENGTH 64, Wr BLOCK_COUNT 1] @ e12"
      "writes e12 = concat (replicate (Suc k)
         (cmd_writes (switch_arg (SD_SWITCH_SWITCH cfg) (SD_GROUP_ACCESSMODE cfg)
                        (SD_SPEED_SDR25 cfg)) 6
            (data_rsp cfg (SDCARD_CTRL_DATA_TRANSFER_READ cfg))))"
    by (auto simp: csr_write_def)
  from send_command_writes[OF s13[unfolded sdcard_app_cmd_def]] obtain e13 where
    e13: "t13 = t12 @ e13"
      "writes e13 = cmd_writes (push_bit 16 (ucast rca)) 55
                      (ucast (SDCARD_CTRL_RESPONSE_SHORT cfg))"
    by blast
  from app_send_scr_writes[OF s14] obtain e14 m where
    e14: "t14 = t13 @ [Wr BLOCK_LENGTH 8, Wr BLOCK_COUNT 1] @ e14"
      "writes e14 = concat (replicate (Suc m)
         (cmd_writes 0 51 (data_rsp cfg (SDCARD_CTRL_DATA_TRANSFER_READ cfg))))"
    by blast
  from send_command_writes[OF s15[unfolded sdcard_app_set_blocklen_def]] obtain e15 where
    e15: "tr' = t14 @ e15"
      "writes e15 = cmd_writes 512 16 (ucast (SDCARD_CTRL_RESPONSE_SHORT cfg))"
    by blast
  let ?evs = "?c0 @ e1 @ e2 @ ?c1 @ e3 @ e4 @ e5 @ e6 @ e7 @ e8 @ e9 @ e10 @ e11
      @ [Wr PHY_SETTINGS (SD_PHY_SPEED_4X cfg)] @ [Wr BLOCK_LENGTH 64, Wr BLOCK_COUNT 1] @ e12
      @ e13 @ [Wr BLOCK_LENGTH 8, Wr BLOCK_COUNT 1] @ e14 @ e15"
  have "tr' = tr @ ?evs"
    using e1(1) e2(1) e3(1) e4(1) e5(1) e6(1) e7(1) e8(1) e9(1) e10(1) e11(1) e12(1) e13(1)
      e14(1) e15(1) by simp
  then have n: "new_events tr tr' = ?evs" by (simp only: new_events_append)
  have lit: "writes ?c0 = [Wr PHY_CLOCKER_DIVIDER (clk_divider cfg SDCARD_CLK_FREQ_INIT)]"
    "writes ?c1 = [Wr PHY_CLOCKER_DIVIDER (clk_divider cfg SDCARD_CLK_FREQ)]"
    "writes [Wr PHY_SETTINGS (SD_PHY_SPEED_4X cfg)] = [Wr PHY_SETTINGS (SD_PHY_SPEED_4X cfg)]"
    "writes [Wr BLOCK_LENGTH 64, Wr BLOCK_COUNT 1] = [Wr BLOCK_LENGTH 64, Wr BLOCK_COUNT 1]"
    "writes [Wr BLOCK_LENGTH 8, Wr BLOCK_COUNT 1] = [Wr BLOCK_LENGTH 8, Wr BLOCK_COUNT 1]"
    by (simp_all add: writes_def)
  have "writes ?evs = init_writes cfg i j (Suc k) (Suc m) rca"
    unfolding init_writes_def writes_append lit
      e1(2) e2(2) e3(2) e4(2) e5(2) e6(2) e7(2) e8(2) e9(2) e10(2) e11(2) e12(2) e13(2)
      e14(2) e15(2)
    by simp
  with n have "writes (new_events tr tr') = init_writes cfg i j (Suc k) (Suc m) rca"
    by (simp only:)
  with r e1(3,4) e3(3,4) show ?thesis by blast
qed

section \<open>Projections of the register writes\<close>

lemma writes_to_writes: "writes_to r (writes evs) = writes_to r evs"
proof (induction evs)
  case Nil
  then show ?case by (simp add: writes_def)
next
  case (Cons e evs)
  then show ?case by (cases e) (simp_all add: writes_def writes_to_Cons)
qed

lemma opcodes_writes: "opcodes (writes evs) = opcodes evs"
  by (simp add: opcodes_def writes_to_writes)

lemma writes_to_concat_replicate:
  "writes_to r (concat (replicate n xs)) = concat (replicate n (writes_to r xs))"
  by (induction n) (simp_all add: writes_to_Nil writes_to_append)

lemma opcodes_concat_replicate:
  "opcodes (concat (replicate n xs)) = concat (replicate n (opcodes xs))"
  by (induction n) (simp_all add: opcodes_Nil opcodes_append)

lemma concat_replicate_single: "concat (replicate n [x]) = replicate n x"
  by (induction n) simp_all

lemma concat_replicate_Nil: "concat (replicate n []) = []"
  by (induction n) simp_all

lemma opcodes_idle_attempt: "opcodes (idle_attempt cfg) = [0]"
  by (simp add: idle_attempt_def opcodes_Cons opcodes_cmd_writes)

lemma writes_to_init_writes:
  "writes_to BLOCK_LENGTH (init_writes cfg i j k m rca) = [64, 8]"
  "writes_to BLOCK_COUNT (init_writes cfg i j k m rca) = [1, 1]"
  by (simp_all add: init_writes_def writes_to_append writes_to_Cons writes_to_Nil
        writes_to_cmd_writes writes_to_concat_replicate idle_attempt_def op_cond_attempt_def
        concat_replicate_Nil)

section \<open>Hardware on which no idle command succeeds, or none completes\<close>

lemma go_idle_fails_idle_loop:
  "go_idle_fails cfg hw (unat t) tr \<Longrightarrow>
   \<exists>tr'. sdcard_init_idle_loop cfg hw t tr = Some (0, tr')"
proof (induction cfg hw t tr rule: sdcard_init_idle_loop.induct)
  case (1 cfg hw t tr)
  show ?case
  proof (cases "0 < t")
    case False
    then have "t = 0" by (simp add: word_greater_zero_iff)
    then show ?thesis by (simp add: sdcard_init_idle_loop.simps[of cfg hw 0])
  next
    case True
    let ?t2 = "busy_wait 1 (csr_write PHY_INIT_INITIALIZE 1 tr)"
    from True have "t \<noteq> 0" by (simp add: word_greater_zero_iff)
    then have "unat t = Suc (unat (t - 1))"
      by (simp add: unat_minus_one unat_gt_0)
    with "1.prems" have f: "go_idle_fails cfg hw (Suc (unat (t - 1))) tr" by simp
    then obtain r t3 where
      g: "sdcard_go_idle cfg hw ?t2 = Some (r, t3)" and r: "r \<noteq> SD_OK"
      and n: "go_idle_fails cfg hw (unat (t - 1)) (busy_wait 1 t3)"
      by (auto split: option.splits)
    from "1.IH"[OF True refl refl g refl r n] obtain tr' where
      "sdcard_init_idle_loop cfg hw (t - 1) (busy_wait 1 t3) = Some (0, tr')" by blast
    with True g r show ?thesis
      by (simp add: sdcard_init_idle_loop.simps[of cfg hw t] Let_def)
  qed
qed

lemma go_idle_fails_init:
  assumes "go_idle_fails cfg hw 1000
             (busy_wait 1 (sdcard_set_clk_freq cfg SDCARD_CLK_FREQ_INIT 0 tr))"
  shows "\<exists>tr'. sdcard_init cfg hw tr = Some (0, tr')
     \<and> writes (new_events tr tr') =
         Wr PHY_CLOCKER_DIVIDER (clk_divider cfg SDCARD_CLK_FREQ_INIT)
         # concat (replicate 1000 (idle_attempt cfg))"
proof -
  let ?c0 = "[Wr PHY_CLOCKER_DIVIDER (clk_divider cfg SDCARD_CLK_FREQ_INIT), Busy_wait 1]"
  have t0: "busy_wait 1 (sdcard_set_clk_freq cfg SDCARD_CLK_FREQ_INIT 0 tr) = tr @ ?c0"
    by (simp add: set_clk_freq_quiet busy_wait_def)
  have "unat (1000 :: 16 word) = 1000" by simp
  with assms t0 have "go_idle_fails cfg hw (unat (1000 :: 16 word)) (tr @ ?c0)" by simp
  from go_idle_fails_idle_loop[OF this] obtain tr' where
    l: "sdcard_init_idle_loop cfg hw 1000 (tr @ ?c0) = Some (0, tr')" by blast
  from idle_loop_writes[OF l] obtain evs where
    e: "tr' = (tr @ ?c0) @ evs" "writes evs = concat (replicate 1000 (idle_attempt cfg))"
    by auto
  have "sdcard_init cfg hw tr = Some (0, tr')"
    unfolding sdcard_init_def Let_def t0 l by simp
  moreover have "new_events tr tr' = ?c0 @ evs" using e(1) by (simp add: new_events_def)
  then have "writes (new_events tr tr') =
         Wr PHY_CLOCKER_DIVIDER (clk_divider cfg SDCARD_CLK_FREQ_INIT)
         # concat (replicate 1000 (idle_attempt cfg))"
    using e(2) by (simp add: writes_append) (simp add: writes_def)
  ultimately show ?thesis by blast
qed

lemma go_idle_never_ok_fails:
  assumes "\<forall>tr. \<exists>r tr'. sdcard_go_idle cfg hw tr = Some (r, tr') \<and> r \<noteq> SD_OK"
  shows "go_idle_fails cfg hw n tr"
proof (induction n arbitrary: tr)
  case 0
  show ?case by simp
next
  case (Suc n)
  from assms obtain r tr' where
    "sdcard_go_idle cfg hw (busy_wait 1 (csr_write PHY_INIT_INITIALIZE 1 tr)) = Some (r, tr')"
    "r \<noteq> SD_OK" by blast
  with Suc[of "busy_wait 1 tr'"] show ?case by simp
qed

lemma hw_late_send_command:
  "sdcard_send_command hw_late arg cmd rsp tr =
     Some (SD_TIMEOUT, tr @ cmd_writes arg cmd rsp
             @ [Rd CMD_EVENT 0, Busy_wait_us 10, Rd CMD_EVENT 5, Busy_wait_us 10])"
proof -
  let ?t = "tr @ cmd_writes arg cmd rsp"
  have a: "hw_late ?t CMD_EVENT = 0" by (simp add: hw_late_def cmd_writes_def)
  have b: "hw_late (?t @ [Rd CMD_EVENT 0, Busy_wait_us 10]) CMD_EVENT = 5"
    by (simp add: hw_late_def)
  have "sdcard_wait_cmd_done_poll hw_late ?t =
          sdcard_wait_cmd_done_poll hw_late (?t @ [Rd CMD_EVENT 0, Busy_wait_us 10])"
    using wait_cmd_done_poll_again[of hw_late ?t] a by simp
  also have "\<dots> = Some (5, (?t @ [Rd CMD_EVENT 0, Busy_wait_us 10])
                             @ [Rd CMD_EVENT 5, Busy_wait_us 10])"
    using wait_cmd_done_poll_done[of hw_late "?t @ [Rd CMD_EVENT 0, Busy_wait_us 10]"] b
    by simp
  finally have "sdcard_wait_cmd_done hw_late ?t =
      Some (SD_TIMEOUT, ?t @ [Rd CMD_EVENT 0, Busy_wait_us 10, Rd CMD_EVENT 5, Busy_wait_us 10])"
    by (simp add: sdcard_wait_cmd_done_def)
  then show ?thesis
    by (simp add: sdcard_send_command_def csr_write_def cmd_writes_def)
qed

lemma hw_late_go_idle_fails:
  "\<forall>tr. \<exists>r tr'. sdcard_go_idle cfg hw_late tr = Some (r, tr') \<and> r \<noteq> SD_OK"
  by (simp add: sdcard_go_idle_def hw_late_send_command)

lemma never_done_init:
  assumes "\<forall>tr. hw tr CMD_EVENT AND 1 = 0"
  shows "sdcard_init cfg hw tr = None"
  by (simp add: sdcard_init_def Let_def sdcard_init_idle_loop.simps[of cfg hw 1000]
        sdcard_go_idle_def sdcard_send_command_def sdcard_wait_cmd_done_def
        wait_cmd_done_poll_never[of hw, OF assms])

section \<open>Bring-up on the sample hardware\<close>

lemma init_ok_run: "sdcard_init litex_cfg hw_ok [] = Some (1, init_ok_events)"
  by (simp add: sdcard_init_def sdcard_init_idle_loop.simps sdcard_init_op_cond_loop.simps
        sdcard_go_idle_def sdcard_send_ext_csd_def sdcard_app_cmd_def
        sdcard_app_send_op_cond_def sdcard_all_send_cid_def sdcard_set_relative_address_def
        sdcard_send_cid_def sdcard_send_csd_def sdcard_select_card_def
        sdcard_app_set_bus_width_def sdcard_switch_def sdcard_app_send_scr_def
        sdcard_app_set_blocklen_def sdcard_decode_rca_def csr_rd_buf_response_def
        csr_read_def sdcard_set_clk_freq_def DIV_ROUND_UP_def SDCARD_CLK_FREQ_INIT_def
        SDCARD_CLK_FREQ_def busy_wait_def csr_write_def hw_ok_run hw_ok_def litex_cfg_def
        cmd_writes_def init_ok_events_def Let_def)

lemma init_legacy_run: "sdcard_init litex_cfg hw_legacy [] = Some (0, init_legacy_events)"
  by (simp add: sdcard_init_def sdcard_init_idle_loop.simps
        sdcard_go_idle_def sdcard_send_ext_csd_def sdcard_send_command_def
        sdcard_wait_cmd_done_def wait_cmd_done_poll_done
        sdcard_set_clk_freq_def DIV_ROUND_UP_def SDCARD_CLK_FREQ_INIT_def
        busy_wait_def csr_write_def hw_legacy_def litex_cfg_def opcodes_def writes_to_def
        init_legacy_events_def Let_def)

section \<open>The claims\<close>

text \<open>
  C6. A call of \<^verbatim>\<open>sdcard_send_command\<close>, and a call of \<^verbatim>\<open>sdcard_wait_data_done\<close>,
  returns one of the three results, and which one is decided by the event word read
  when bit 0 (done) is set: bit 2 (timeout) gives \<open>SD_TIMEOUT\<close>, else bit 3 (CRC error)
  gives \<open>SD_CRCERROR\<close>, else \<open>SD_OK\<close>. That word is the last one read. The call returns
  as soon as some poll finds bit 0 set.
\<close>

theorem sdcard_result_mapping:
  "(sdcard_send_command hw arg cmd rsp tr = Some (r, tr') \<longrightarrow>
      (\<exists>ev evs. tr' = tr @ evs @ [Rd CMD_EVENT ev, Busy_wait_us 10] \<and> ev AND 1 \<noteq> 0
         \<and> r = (if ev AND 4 \<noteq> 0 then SD_TIMEOUT
                else if ev AND 8 \<noteq> 0 then SD_CRCERROR else SD_OK)))
   \<and> (sdcard_wait_data_done hw tr = Some (rd, trd') \<longrightarrow>
      (\<exists>ev evs. trd' = tr @ evs @ [Rd DATA_EVENT ev] \<and> ev AND 1 \<noteq> 0
         \<and> rd = (if ev AND 4 \<noteq> 0 then SD_TIMEOUT
                 else if ev AND 8 \<noteq> 0 then SD_CRCERROR else SD_OK)))
   \<and> (hw ((cmd_poll_step hw ^^ n) (tr @ cmd_writes arg cmd rsp)) CMD_EVENT AND 1 \<noteq> 0 \<longrightarrow>
       (\<exists>r tr'. sdcard_send_command hw arg cmd rsp tr = Some (r, tr')))
   \<and> (hw ((data_poll_step hw ^^ m) tr) DATA_EVENT AND 1 \<noteq> 0 \<longrightarrow>
       (\<exists>r tr'. sdcard_wait_data_done hw tr = Some (r, tr')))"
proof (intro conjI impI)
  assume a: "sdcard_send_command hw arg cmd rsp tr = Some (r, tr')"
  let ?t = "tr @ cmd_writes arg cmd rsp"
  from a obtain y where y: "sdcard_wait_cmd_done_poll hw ?t = Some y" and t: "tr' = snd y"
    and r: "r = (if fst y AND 4 \<noteq> 0 then SD_TIMEOUT
                else if fst y AND 8 \<noteq> 0 then SD_CRCERROR else SD_OK)"
    by (auto simp: sdcard_send_command_def sdcard_wait_cmd_done_def csr_write_def
          cmd_writes_def split: option.splits if_splits)
  from wait_cmd_done_poll_last[OF y] obtain evs where
    "snd y = ?t @ evs @ [Rd CMD_EVENT (fst y), Busy_wait_us 10]" "fst y AND 1 \<noteq> 0" by blast
  with t r show "\<exists>ev evs. tr' = tr @ evs @ [Rd CMD_EVENT ev, Busy_wait_us 10] \<and> ev AND 1 \<noteq> 0
         \<and> r = (if ev AND 4 \<noteq> 0 then SD_TIMEOUT
                else if ev AND 8 \<noteq> 0 then SD_CRCERROR else SD_OK)"
    by (intro exI[of _ "fst y"] exI[of _ "cmd_writes arg cmd rsp @ evs"]) simp
next
  assume a: "sdcard_wait_data_done hw tr = Some (rd, trd')"
  from a obtain y where y: "sdcard_wait_data_done_poll hw tr = Some y" and t: "trd' = snd y"
    and r: "rd = (if fst y AND 4 \<noteq> 0 then SD_TIMEOUT
                 else if fst y AND 8 \<noteq> 0 then SD_CRCERROR else SD_OK)"
    by (auto simp: sdcard_wait_data_done_def split: option.splits if_splits)
  from wait_data_done_poll_last[OF y] t r
  show "\<exists>ev evs. trd' = tr @ evs @ [Rd DATA_EVENT ev] \<and> ev AND 1 \<noteq> 0
         \<and> rd = (if ev AND 4 \<noteq> 0 then SD_TIMEOUT
                 else if ev AND 8 \<noteq> 0 then SD_CRCERROR else SD_OK)"
    by auto
next
  assume "hw ((cmd_poll_step hw ^^ n) (tr @ cmd_writes arg cmd rsp)) CMD_EVENT AND 1 \<noteq> 0"
  from wait_cmd_done_poll_returns[of hw n, OF this]
  show "\<exists>r tr'. sdcard_send_command hw arg cmd rsp tr = Some (r, tr')"
    by (auto simp: sdcard_send_command_def sdcard_wait_cmd_done_def csr_write_def cmd_writes_def)
next
  assume "hw ((data_poll_step hw ^^ m) tr) DATA_EVENT AND 1 \<noteq> 0"
  from wait_data_done_poll_returns[of hw m, OF this]
  show "\<exists>r tr'. sdcard_wait_data_done hw tr = Some (r, tr')"
    by (auto simp: sdcard_wait_data_done_def)
qed

theorem sdcard_result_mapping_witness:
  "sdcard_send_command hw_cmd_timeout 7 0 0 [] =
     Some (SD_TIMEOUT, [Wr CMD_ARGUMENT 7, Wr CMD_COMMAND 0, Wr CMD_SEND 1, Rd CMD_EVENT 5,
                        Busy_wait_us 10])
   \<and> sdcard_wait_data_done hw_cmd_timeout [] = Some (SD_TIMEOUT, [Rd DATA_EVENT 5])
   \<and> hw_cmd_timeout ((cmd_poll_step hw_cmd_timeout ^^ 0) ([] @ cmd_writes 7 0 0)) CMD_EVENT
       AND 1 \<noteq> 0
   \<and> hw_cmd_timeout ((data_poll_step hw_cmd_timeout ^^ 0) []) DATA_EVENT AND 1 \<noteq> 0
   \<and> (\<exists>ev evs. [Wr CMD_ARGUMENT 7, Wr CMD_COMMAND 0, Wr CMD_SEND 1, Rd CMD_EVENT 5,
                 Busy_wait_us 10]
          = [] @ evs @ [Rd CMD_EVENT ev, Busy_wait_us 10] \<and> ev AND 1 \<noteq> 0
         \<and> SD_TIMEOUT = (if ev AND 4 \<noteq> 0 then SD_TIMEOUT
                else if ev AND 8 \<noteq> 0 then SD_CRCERROR else SD_OK))"
  using sdcard_result_mapping[of hw_cmd_timeout 7 0 0 "[]" SD_TIMEOUT
      "[Wr CMD_ARGUMENT 7, Wr CMD_COMMAND 0, Wr CMD_SEND 1, Rd CMD_EVENT 5, Busy_wait_us 10]"
      SD_TIMEOUT "[Rd DATA_EVENT 5]" 0 0]
  by (simp add: sdcard_send_command_def sdcard_wait_cmd_done_def wait_cmd_done_poll_done
        sdcard_wait_data_done_def wait_data_done_poll_done
        hw_cmd_timeout_def csr_write_def)

text \<open>
  C9. For a drive number other than 0, \<^verbatim>\<open>sd_disk_status\<close> and \<^verbatim>\<open>sd_disk_initialize\<close>
  return \<^verbatim>\<open>STA_NOINIT\<close> at once: the driver state is returned as it was, with no new
  event (no bring-up step, no command) and the stored status unchanged.
\<close>

theorem nonzero_drive_not_initialized:
  "drv \<noteq> 0 \<Longrightarrow>
   sd_disk_status cfg drv d = STA_NOINIT cfg
   \<and> sd_disk_initialize cfg hw drv d = Some (STA_NOINIT cfg, d)"
  by (simp add: sd_disk_status_def sd_disk_initialize_def)

theorem nonzero_drive_not_initialized_witness:
  "(1 :: 8 word) \<noteq> 0
   \<and> sd_disk_status litex_cfg 1 \<lparr>sdcardstatus = 0, events = []\<rparr> = 1
   \<and> sd_disk_initialize litex_cfg hw_ok 1 \<lparr>sdcardstatus = 0, events = []\<rparr>
       = Some (1, \<lparr>sdcardstatus = 0, events = []\<rparr>)"
  using nonzero_drive_not_initialized
          [of 1 litex_cfg "\<lparr>sdcardstatus = 0, events = []\<rparr>" hw_ok]
  by (simp add: litex_cfg_def)

text \<open>
  C7. \<^verbatim>\<open>sdcard_set_clk_freq\<close> writes one divider \<open>d\<close> to the PHY, with
  \<open>2 \<le> d \<le> 256\<close>; for a target frequency other than 0 it is the ceiling of
  system clock / target, clamped to that range, and for the target 0 it is 256. When
  \<^verbatim>\<open>show\<close> is set, the frequency printed (in MHz above 1000000, else in KHz) is the
  system clock divided by \<open>(d + 1) & ~1\<close>, which is \<open>d\<close> rounded up to an even number.
  \<^verbatim>\<open>CONFIG_CLOCK_FREQUENCY\<close> is a C \<^verbatim>\<open>int\<close> constant, hence below \<open>2 ^ 31\<close>.
\<close>

theorem set_clk_freq_divider:
  assumes "unat (CONFIG_CLOCK_FREQUENCY cfg) < 2 ^ 31"
  shows "\<exists>d eff.
     writes (new_events tr (sdcard_set_clk_freq cfg clk_freq show tr)) = [Wr PHY_CLOCKER_DIVIDER d]
     \<and> 2 \<le> unat d \<and> unat d \<le> 256
     \<and> (clk_freq \<noteq> 0 \<longrightarrow>
          int (unat d) =
            min (max \<lceil>real (unat (CONFIG_CLOCK_FREQUENCY cfg)) / real (unat clk_freq)\<rceil> 2) 256)
     \<and> (clk_freq = 0 \<longrightarrow> d = 256)
     \<and> eff = CONFIG_CLOCK_FREQUENCY cfg div ((d + 1) AND NOT 1)
     \<and> unat eff = unat (CONFIG_CLOCK_FREQUENCY cfg) div (2 * ((unat d + 1) div 2))
     \<and> new_events tr (sdcard_set_clk_freq cfg clk_freq show tr) =
         (if show \<noteq> 0
          then [Printf ''Setting SDCard clk freq to '' [],
                if eff > 1000000 then Printf ''%ld MHz\<newline>'' [eff div 1000000]
                else Printf ''%ld KHz\<newline>'' [eff div 1000]]
          else [])
         @ [Wr PHY_CLOCKER_DIVIDER d]"
proof -
  let ?sys = "CONFIG_CLOCK_FREQUENCY cfg"
  define d where
    "d = min (max (if clk_freq \<noteq> 0 then DIV_ROUND_UP ?sys clk_freq else 256) 2) (256 :: 32 word)"
  define eff where "eff = ?sys div ((d + 1) AND NOT 1)"
  have ud: "unat d = min (max (unat (if clk_freq \<noteq> 0 then DIV_ROUND_UP ?sys clk_freq else 256)) 2) 256"
    by (simp add: d_def unat_min_word unat_max_word)
  then have bounds: "2 \<le> unat d" "unat d \<le> 256" by simp_all
  have d1: "unat (d + 1) = unat d + 1"
    using bounds by (simp add: unat_word_ariths)
  have "unat ((d + 1) AND NOT 1) = 2 * (unat (d + 1) div 2)"
    by (rule and_not_one_unat)
  then have ueff: "unat eff = unat ?sys div (2 * ((unat d + 1) div 2))"
    by (simp only: eff_def unat_div d1)
  have ev: "sdcard_set_clk_freq cfg clk_freq show tr = tr @
         (if show \<noteq> 0
          then [Printf ''Setting SDCard clk freq to '' [],
                if eff > 1000000 then Printf ''%ld MHz\<newline>'' [eff div 1000000]
                else Printf ''%ld KHz\<newline>'' [eff div 1000]]
          else [])
         @ [Wr PHY_CLOCKER_DIVIDER d]"
    by (simp add: sdcard_set_clk_freq_def Let_def d_def eff_def printf_def csr_write_def)
  have c: "clk_freq \<noteq> 0 \<Longrightarrow> int (unat d) =
            min (max \<lceil>real (unat ?sys) / real (unat clk_freq)\<rceil> 2) 256"
    using clamped_divider[OF assms, of clk_freq] by (simp add: d_def)
  have z: "clk_freq = 0 \<Longrightarrow> d = 256" by (simp add: d_def)
  show ?thesis
    apply (rule exI[of _ d], rule exI[of _ eff])
    apply (intro conjI impI)
    subgoal by (simp add: ev new_events_append writes_def)
    subgoal by (rule bounds)
    subgoal by (rule bounds)
    subgoal by (rule c)
    subgoal by (rule z)
    subgoal by (rule eff_def)
    subgoal by (rule ueff)
    subgoal by (simp only: ev new_events_append)
    done
qed

theorem set_clk_freq_divider_witness:
  "unat (CONFIG_CLOCK_FREQUENCY litex_cfg) < 2 ^ 31
   \<and> sdcard_set_clk_freq litex_cfg 400000 1 [] =
       [Printf ''Setting SDCard clk freq to '' [], Printf ''%ld KHz\<newline>'' [400],
        Wr PHY_CLOCKER_DIVIDER 250]
   \<and> sdcard_set_clk_freq litex_cfg 25000000 1 [] =
       [Printf ''Setting SDCard clk freq to '' [], Printf ''%ld MHz\<newline>'' [25],
        Wr PHY_CLOCKER_DIVIDER 4]
   \<and> sdcard_set_clk_freq litex_cfg 0 0 [] = [Wr PHY_CLOCKER_DIVIDER 256]"
  using set_clk_freq_divider[of litex_cfg "[]" 400000 1]
    set_clk_freq_divider[of litex_cfg "[]" 0 0]
  by (simp add: sdcard_set_clk_freq_def litex_cfg_def DIV_ROUND_UP_def printf_def csr_write_def
        Let_def)

text \<open>
  C4. With multi-block write on, \<^verbatim>\<open>sdcard_write\<close> of more than one block (the claim's
  \<^verbatim>\<open>write(buffer, 0, 4)\<close> is the witness) sends \<^verbatim>\<open>STOP_TRANSMISSION\<close> (opcode 12) and
  polls the done flag of the memory-to-block DMA engine, and no read of that flag
  comes before the stop command.
\<close>

theorem write_stop_before_dma_poll:
  assumes "SDCARD_CMD25_SUPPORT cfg" and "1 < count"
    and "sdcard_write cfg hw block count buf tr = Some tr'"
  shows "precedes (is_command 12) (is_read_of MEM2BLOCK_DMA_DONE) (new_events tr tr')"
proof -
  from assms(2) have "count \<noteq> 0" by auto
  with assms have "sdcard_write_chunk cfg hw block count buf tr = Some tr'"
    by (simp add: write_one_chunk)
  with assms(2) show ?thesis by (rule write_chunk_order)
qed

theorem write_stop_before_dma_poll_witness:
  "SDCARD_CMD25_SUPPORT litex_cfg \<and> (1 :: 32 word) < 4
   \<and> sdcard_write litex_cfg hw_ok 0 4 0 [] = Some write_0_4_events
   \<and> precedes (is_command 12) (is_read_of MEM2BLOCK_DMA_DONE) (new_events [] write_0_4_events)"
  using write_stop_before_dma_poll[of litex_cfg 4 hw_ok 0 0 "[]" write_0_4_events]
    write_0_4_run
  by (simp add: litex_cfg_def)

text \<open>
  C1, as the claim states it: in \<^verbatim>\<open>sdcard_read(0, 2, 0)\<close> the stop command would come
  before the first read of the done flag of the block-to-memory DMA engine. It does not.
\<close>

theorem read_stop_before_dma_poll_counterexample:
  "sdcard_read litex_cfg hw_ok 0 2 0 [] = Some read_0_2_events
   \<and> \<not> precedes (is_command 12) (is_read_of BLOCK2MEM_DMA_DONE) (new_events [] read_0_2_events)"
  using read_0_2_run
  by (simp add: precedes_def new_events_def read_0_2_events_def)

text \<open>
  C1, amended. In the read path every chunk of more than one block polls the done flag
  of the block-to-memory DMA engine until it is set, and only then sends
  \<^verbatim>\<open>STOP_TRANSMISSION\<close>: the events of the chunk are a part with neither, the polls
  (the last one with bit 0 set), and the stop command. So it is for a whole
  \<^verbatim>\<open>sdcard_read\<close> of more than one block with multi-block read on.
\<close>

theorem read_dma_poll_before_stop:
  "(1 < nblocks \<and> sdcard_read_chunk cfg hw block nblocks buf tr = Some tr' \<longrightarrow>
      (\<exists>pre p s. new_events tr tr' = pre @ p @ s
           \<and> \<not> list_ex (is_command 12) pre
           \<and> \<not> list_ex (is_read_of BLOCK2MEM_DMA_DONE) pre
           \<and> dma_poll_evs BLOCK2MEM_DMA_DONE p
           \<and> command_evs 0 12 (ucast (SDCARD_CTRL_RESPONSE_SHORT_BUSY cfg)) s)
      \<and> all_before (is_read_of BLOCK2MEM_DMA_DONE) (is_command 12) (new_events tr tr'))
   \<and> (SDCARD_CMD18_SUPPORT cfg \<and> 1 < count
        \<and> sdcard_read cfg hw block count buf tr = Some tr2 \<longrightarrow>
      all_before (is_read_of BLOCK2MEM_DMA_DONE) (is_command 12) (new_events tr tr2))"
proof -
  have chunk: "\<exists>pre p s. new_events tr tr' = pre @ p @ s
           \<and> \<not> list_ex (is_command 12) pre
           \<and> \<not> list_ex (is_read_of BLOCK2MEM_DMA_DONE) pre
           \<and> dma_poll_evs BLOCK2MEM_DMA_DONE p
           \<and> command_evs 0 12 (ucast (SDCARD_CTRL_RESPONSE_SHORT_BUSY cfg)) s"
    if "1 < n" "sdcard_read_chunk cfg hw block n buf tr = Some tr'" for n tr'
    using that by (rule read_chunk_order)
  have order: "all_before (is_read_of BLOCK2MEM_DMA_DONE) (is_command 12) (new_events tr tr' @ F)"
    if n: "1 < n" and r: "sdcard_read_chunk cfg hw block n buf tr = Some tr'"
      and F: "\<not> list_ex (is_read_of BLOCK2MEM_DMA_DONE) F" for n tr' F
  proof -
    from chunk[OF n r] obtain pre p s where
      e: "new_events tr tr' = pre @ p @ s"
      and pre: "\<not> list_ex (is_command 12) pre" "\<not> list_ex (is_read_of BLOCK2MEM_DMA_DONE) pre"
      and p: "dma_poll_evs BLOCK2MEM_DMA_DONE p"
      and s: "command_evs 0 12 (ucast (SDCARD_CTRL_RESPONSE_SHORT_BUSY cfg)) s"
      by blast
    have "all_before (is_read_of BLOCK2MEM_DMA_DONE) (is_command 12) ((pre @ p) @ (s @ F))"
    proof (rule all_beforeI)
      show "\<not> list_ex (is_command 12) (pre @ p)"
        using pre dma_poll_no_command[OF p] by simp
      show "list_ex (is_read_of BLOCK2MEM_DMA_DONE) (pre @ p)"
        using dma_poll_has_read[OF p] by simp
      show "list_ex (is_command 12) (s @ F)"
        using command_evs_has_command[OF s] by simp
      have "\<not> list_ex (is_read_of BLOCK2MEM_DMA_DONE) s"
        using s by (rule command_evs_no_read) simp
      with F show "\<not> list_ex (is_read_of BLOCK2MEM_DMA_DONE) (s @ F)" by simp
    qed
    with e show ?thesis by simp
  qed
  show ?thesis
  proof (intro conjI impI)
    assume a: "1 < nblocks \<and> sdcard_read_chunk cfg hw block nblocks buf tr = Some tr'"
    then show "\<exists>pre p s. new_events tr tr' = pre @ p @ s
           \<and> \<not> list_ex (is_command 12) pre
           \<and> \<not> list_ex (is_read_of BLOCK2MEM_DMA_DONE) pre
           \<and> dma_poll_evs BLOCK2MEM_DMA_DONE p
           \<and> command_evs 0 12 (ucast (SDCARD_CTRL_RESPONSE_SHORT_BUSY cfg)) s"
      using chunk by blast
    from a order[of nblocks tr' "[]"]
    show "all_before (is_read_of BLOCK2MEM_DMA_DONE) (is_command 12) (new_events tr tr')"
      by simp
  next
    assume a: "SDCARD_CMD18_SUPPORT cfg \<and> 1 < count
        \<and> sdcard_read cfg hw block count buf tr = Some tr2"
    then have c0: "count \<noteq> 0" by auto
    let ?F = "if \<not> CONFIG_CPU_HAS_DMA_BUS cfg then [Flush_cpu_dcache, Flush_l2_cache] else []"
    from a read_appends_flush[of cfg hw block count buf tr tr2] obtain t1 where
      l: "sdcard_read_loop cfg hw block count buf tr = Some t1" and t: "tr2 = t1 @ ?F"
      by blast
    have "sdcard_read_loop cfg hw block count buf tr
            = sdcard_read_chunk cfg hw block count buf tr"
      using a c0 by (intro read_loop_one_chunk) simp_all
    with l have r: "sdcard_read_chunk cfg hw block count buf tr = Some t1"
      by (simp only:)
    from read_chunk_appends[OF r] obtain evs where t1: "t1 = tr @ evs" by blast
    have "\<not> list_ex (is_read_of BLOCK2MEM_DMA_DONE) ?F" by simp
    with a r have "all_before (is_read_of BLOCK2MEM_DMA_DONE) (is_command 12)
        (new_events tr t1 @ ?F)" by (intro order) simp_all
    moreover have "new_events tr tr2 = new_events tr t1 @ ?F"
      using t t1 by (simp add: new_events_def)
    ultimately show "all_before (is_read_of BLOCK2MEM_DMA_DONE) (is_command 12)
        (new_events tr tr2)" by (simp only:)
  qed
qed

theorem read_dma_poll_before_stop_witness:
  "(1 :: 32 word) < 2 \<and> SDCARD_CMD18_SUPPORT litex_cfg
   \<and> sdcard_read litex_cfg hw_ok 0 2 0 [] = Some read_0_2_events
   \<and> sdcard_read_chunk litex_cfg hw_ok 0 2 0 [] = Some (butlast (butlast read_0_2_events))
   \<and> all_before (is_read_of BLOCK2MEM_DMA_DONE) (is_command 12) (new_events [] read_0_2_events)
   \<and> all_before (is_read_of BLOCK2MEM_DMA_DONE) (is_command 12)
       (new_events [] (butlast (butlast read_0_2_events)))"
  using read_dma_poll_before_stop[of 2 litex_cfg hw_ok 0 0 "[]"
          "butlast (butlast read_0_2_events)" 2 read_0_2_events]
    read_0_2_run
  by (simp add: litex_cfg_def sdcard_read_chunk_def sdcard_read_multiple_block_def
        sdcard_stop_transmission_def hw_ok_run hw_ok_def csr_write_def
        csr_write64_def cmd_writes_def read_0_2_events_def)

text \<open>
  C3, as the claim states it: \<^verbatim>\<open>sdcard_write(0, 4, 0)\<close> would wait for the data phase
  (\<^verbatim>\<open>sdcard_wait_data_done\<close> reads the data event register) between the write command
  and the stop command. The data event register is not read at all.
\<close>

theorem write_waits_data_done_counterexample:
  "sdcard_write litex_cfg hw_ok 0 4 0 [] = Some write_0_4_events
   \<and> \<not> list_ex (is_read_of DATA_EVENT) write_0_4_events"
  using write_0_4_run by (simp add: write_0_4_events_def)

text \<open>
  C3, amended. The write path does steps 1 to 5 of the read path on the memory-to-block
  engine: set-up of the DMA engine (off, base, length \<open>512 * nblocks\<close>, on), the optional
  block count command, the block geometry, and the write command (opcode 25 for more
  than one block, else 24) sent until it reports \<open>SD_OK\<close>: the events of the command are
  attempts with another result, each followed by the next attempt, and a last attempt
  with result \<open>SD_OK\<close>. There is no step 6: the stop command (more than one block only)
  and the poll of the DMA done flag follow at once, and no \<^verbatim>\<open>sdcard_write\<close> ever reads
  the data event register. Of the two write commands: when the command sent after the
  geometry reports \<open>SD_OK\<close>, the function returns \<open>SD_OK\<close> there, with no event added;
  when it reports another result, the command is sent again from there, and the function
  returns \<open>SD_OK\<close> when that loop ends. On hardware that completes at once
  \<^verbatim>\<open>sdcard_write\<close> returns.
\<close>

theorem write_mirrors_read_without_data_wait:
  "(sdcard_write_chunk cfg hw block n buf tr = Some tr' \<longrightarrow>
      (\<exists>c23 c s p.
         new_events tr tr' =
           dma_setup MEM2BLOCK_DMA_ENABLE MEM2BLOCK_DMA_BASE MEM2BLOCK_DMA_LENGTH buf n
           @ c23 @ [Wr BLOCK_LENGTH 512, Wr BLOCK_COUNT (if 1 < n then n else 1)] @ c @ s @ p
         \<and> (if SDCARD_CMD23_SUPPORT cfg
             then command_evs n 23 (ucast (SDCARD_CTRL_RESPONSE_SHORT cfg)) c23 else c23 = [])
         \<and> retried_command_evs block (if 1 < n then 25 else 24)
              (data_rsp cfg (SDCARD_CTRL_DATA_TRANSFER_WRITE cfg)) c
         \<and> sent_until_ok block (if 1 < n then 25 else 24)
              (data_rsp cfg (SDCARD_CTRL_DATA_TRANSFER_WRITE cfg)) c
         \<and> (if 1 < n then command_evs 0 12 (ucast (SDCARD_CTRL_RESPONSE_SHORT_BUSY cfg)) s
             else s = [])
         \<and> dma_poll_evs MEM2BLOCK_DMA_DONE p))
   \<and> (sdcard_write cfg hw block count buf tr = Some tr2 \<longrightarrow>
        \<not> list_ex (is_read_of DATA_EVENT) (new_events tr tr2))
   \<and> (sdcard_send_command hw block 24 (data_rsp cfg (SDCARD_CTRL_DATA_TRANSFER_WRITE cfg))
          (tr @ [Wr BLOCK_LENGTH 512, Wr BLOCK_COUNT 1]) = Some (SD_OK, t1) \<longrightarrow>
        sdcard_write_single_block cfg hw block tr = Some (SD_OK, t1))
   \<and> (sdcard_send_command hw block 25 (data_rsp cfg (SDCARD_CTRL_DATA_TRANSFER_WRITE cfg))
          (tr @ [Wr BLOCK_LENGTH 512, Wr BLOCK_COUNT n]) = Some (SD_OK, t2) \<longrightarrow>
        sdcard_write_multiple_block cfg hw block n tr = Some (SD_OK, t2))
   \<and> (sdcard_send_command hw block 24 (data_rsp cfg (SDCARD_CTRL_DATA_TRANSFER_WRITE cfg))
          (tr @ [Wr BLOCK_LENGTH 512, Wr BLOCK_COUNT 1]) = Some (r3, t3) \<and> r3 \<noteq> SD_OK \<longrightarrow>
        sdcard_write_single_block cfg hw block tr =
          map_option (Pair SD_OK)
            (sdcard_send_command_until_ok hw block 24
               (data_rsp cfg (SDCARD_CTRL_DATA_TRANSFER_WRITE cfg)) t3))
   \<and> (sdcard_send_command hw block 25 (data_rsp cfg (SDCARD_CTRL_DATA_TRANSFER_WRITE cfg))
          (tr @ [Wr BLOCK_LENGTH 512, Wr BLOCK_COUNT n]) = Some (r4, t4) \<and> r4 \<noteq> SD_OK \<longrightarrow>
        sdcard_write_multiple_block cfg hw block n tr =
          map_option (Pair SD_OK)
            (sdcard_send_command_until_ok hw block 25
               (data_rsp cfg (SDCARD_CTRL_DATA_TRANSFER_WRITE cfg)) t4))
   \<and> (completes_ok hw \<longrightarrow> (\<exists>tr5. sdcard_write cfg hw block count buf tr = Some tr5))"
proof (intro conjI impI)
  assume "sdcard_write_chunk cfg hw block n buf tr = Some tr'"
  from write_chunk_sent[OF this]
  show "\<exists>c23 c s p.
         new_events tr tr' =
           dma_setup MEM2BLOCK_DMA_ENABLE MEM2BLOCK_DMA_BASE MEM2BLOCK_DMA_LENGTH buf n
           @ c23 @ [Wr BLOCK_LENGTH 512, Wr BLOCK_COUNT (if 1 < n then n else 1)] @ c @ s @ p
         \<and> (if SDCARD_CMD23_SUPPORT cfg
             then command_evs n 23 (ucast (SDCARD_CTRL_RESPONSE_SHORT cfg)) c23 else c23 = [])
         \<and> retried_command_evs block (if 1 < n then 25 else 24)
              (data_rsp cfg (SDCARD_CTRL_DATA_TRANSFER_WRITE cfg)) c
         \<and> sent_until_ok block (if 1 < n then 25 else 24)
              (data_rsp cfg (SDCARD_CTRL_DATA_TRANSFER_WRITE cfg)) c
         \<and> (if 1 < n then command_evs 0 12 (ucast (SDCARD_CTRL_RESPONSE_SHORT_BUSY cfg)) s
             else s = [])
         \<and> dma_poll_evs MEM2BLOCK_DMA_DONE p"
    by (elim exE conjE) (simp only: new_events_append, blast)
next
  assume "sdcard_write cfg hw block count buf tr = Some tr2"
  then have "sdcard_write_loop cfg hw block count buf tr = Some tr2"
    by (simp add: sdcard_write_def)
  from write_loop_no_data_read[OF this]
  show "\<not> list_ex (is_read_of DATA_EVENT) (new_events tr tr2)"
    by (auto simp: new_events_append)
next
  assume "sdcard_send_command hw block 24 (data_rsp cfg (SDCARD_CTRL_DATA_TRANSFER_WRITE cfg))
          (tr @ [Wr BLOCK_LENGTH 512, Wr BLOCK_COUNT 1]) = Some (SD_OK, t1)"
  from send_command_until_ok_done[OF this]
  show "sdcard_write_single_block cfg hw block tr = Some (SD_OK, t1)"
    by (simp add: write_single_block_eq)
next
  assume "sdcard_send_command hw block 25 (data_rsp cfg (SDCARD_CTRL_DATA_TRANSFER_WRITE cfg))
          (tr @ [Wr BLOCK_LENGTH 512, Wr BLOCK_COUNT n]) = Some (SD_OK, t2)"
  from send_command_until_ok_done[OF this]
  show "sdcard_write_multiple_block cfg hw block n tr = Some (SD_OK, t2)"
    by (simp add: write_multiple_block_eq)
next
  assume "sdcard_send_command hw block 24 (data_rsp cfg (SDCARD_CTRL_DATA_TRANSFER_WRITE cfg))
          (tr @ [Wr BLOCK_LENGTH 512, Wr BLOCK_COUNT 1]) = Some (r3, t3) \<and> r3 \<noteq> SD_OK"
  then have s: "sdcard_send_command hw block 24
          (data_rsp cfg (SDCARD_CTRL_DATA_TRANSFER_WRITE cfg))
          (tr @ [Wr BLOCK_LENGTH 512, Wr BLOCK_COUNT 1]) = Some (r3, t3)"
    and r: "r3 \<noteq> SD_OK"
    by simp_all
  from send_command_until_ok_again[OF s r] show "sdcard_write_single_block cfg hw block tr =
          map_option (Pair SD_OK)
            (sdcard_send_command_until_ok hw block 24
               (data_rsp cfg (SDCARD_CTRL_DATA_TRANSFER_WRITE cfg)) t3)"
    by (simp only: write_single_block_eq)
next
  assume "sdcard_send_command hw block 25 (data_rsp cfg (SDCARD_CTRL_DATA_TRANSFER_WRITE cfg))
          (tr @ [Wr BLOCK_LENGTH 512, Wr BLOCK_COUNT n]) = Some (r4, t4) \<and> r4 \<noteq> SD_OK"
  then have s: "sdcard_send_command hw block 25
          (data_rsp cfg (SDCARD_CTRL_DATA_TRANSFER_WRITE cfg))
          (tr @ [Wr BLOCK_LENGTH 512, Wr BLOCK_COUNT n]) = Some (r4, t4)"
    and r: "r4 \<noteq> SD_OK"
    by simp_all
  from send_command_until_ok_again[OF s r] show "sdcard_write_multiple_block cfg hw block n tr =
          map_option (Pair SD_OK)
            (sdcard_send_command_until_ok hw block 25
               (data_rsp cfg (SDCARD_CTRL_DATA_TRANSFER_WRITE cfg)) t4)"
    by (simp only: write_multiple_block_eq)
next
  assume "completes_ok hw"
  from ok_write_loop_returns[OF this]
  show "\<exists>tr5. sdcard_write cfg hw block count buf tr = Some tr5"
    by (simp add: sdcard_write_def)
qed

theorem write_mirrors_read_without_data_wait_witness:
  "sdcard_write_chunk litex_cfg hw_ok 0 4 0 [] = Some write_0_4_events
   \<and> sdcard_write litex_cfg hw_ok 0 4 0 [] = Some write_0_4_events
   \<and> \<not> list_ex (is_read_of DATA_EVENT) (new_events [] write_0_4_events)
   \<and> sdcard_write_chunk litex_cfg hw_ok 0 1 0 [] = Some write_0_1_events
   \<and> sdcard_write litex_cfg hw_ok 0 1 0 [] = Some write_0_1_events
   \<and> \<not> list_ex (is_read_of DATA_EVENT) (new_events [] write_0_1_events)
   \<and> sdcard_send_command hw_ok 0 24 (data_rsp litex_cfg (SDCARD_CTRL_DATA_TRANSFER_WRITE litex_cfg))
       [Wr BLOCK_LENGTH 512, Wr BLOCK_COUNT 1] = Some (SD_OK, write_single_ok_events)
   \<and> sdcard_write_single_block litex_cfg hw_ok 0 [] = Some (SD_OK, write_single_ok_events)
   \<and> sdcard_send_command hw_ok 0 25 (data_rsp litex_cfg (SDCARD_CTRL_DATA_TRANSFER_WRITE litex_cfg))
       [Wr BLOCK_LENGTH 512, Wr BLOCK_COUNT 4] = Some (SD_OK, write_multiple_ok_events)
   \<and> sdcard_write_multiple_block litex_cfg hw_ok 0 4 [] = Some (SD_OK, write_multiple_ok_events)
   \<and> sdcard_send_command hw_crc_once 0 24
       (data_rsp litex_cfg (SDCARD_CTRL_DATA_TRANSFER_WRITE litex_cfg))
       [Wr BLOCK_LENGTH 512, Wr BLOCK_COUNT 1] = Some (SD_CRCERROR, write_single_crc_events)
   \<and> SD_CRCERROR \<noteq> SD_OK
   \<and> sdcard_write_single_block litex_cfg hw_crc_once 0 [] =
       Some (SD_OK, write_single_crc_events
                    @ [Wr CMD_ARGUMENT 0, Wr CMD_COMMAND 6209, Wr CMD_SEND 1,
                       Rd CMD_EVENT 1, Busy_wait_us 10])
   \<and> sdcard_send_command hw_crc_once 0 25
       (data_rsp litex_cfg (SDCARD_CTRL_DATA_TRANSFER_WRITE litex_cfg))
       [Wr BLOCK_LENGTH 512, Wr BLOCK_COUNT 4]
       = Some (SD_CRCERROR, write_multiple_crc_events)
   \<and> sdcard_write_multiple_block litex_cfg hw_crc_once 0 4 [] =
       Some (SD_OK, write_multiple_crc_events
                    @ [Wr CMD_ARGUMENT 0, Wr CMD_COMMAND 6465, Wr CMD_SEND 1,
                       Rd CMD_EVENT 1, Busy_wait_us 10])
   \<and> completes_ok hw_ok
   \<and> (\<exists>tr5. sdcard_write litex_cfg hw_ok 0 4 0 [] = Some tr5)"
proof -
  note a = write_mirrors_read_without_data_wait
    [where cfg = litex_cfg and hw = hw_ok and block = 0 and n = 4 and buf = 0 and tr = "[]"
       and tr' = write_0_4_events and count = 4 and ?tr2.0 = write_0_4_events
       and ?t1.0 = write_single_ok_events and ?t2.0 = write_multiple_ok_events]
  note a1 = write_mirrors_read_without_data_wait
    [where cfg = litex_cfg and hw = hw_ok and block = 0 and n = 1 and buf = 0 and tr = "[]"
       and tr' = write_0_1_events and count = 1 and ?tr2.0 = write_0_1_events]
  note b = write_mirrors_read_without_data_wait
    [where cfg = litex_cfg and hw = hw_crc_once and block = 0 and n = 4 and tr = "[]"
       and ?r3.0 = SD_CRCERROR and ?t3.0 = write_single_crc_events
       and ?r4.0 = SD_CRCERROR and ?t4.0 = write_multiple_crc_events]
  have c: "sdcard_write_chunk litex_cfg hw_ok 0 4 0 [] = Some write_0_4_events"
    by (simp add: litex_cfg_def sdcard_write_chunk_def sdcard_write_multiple_block_def
          sdcard_stop_transmission_def hw_ok_run hw_ok_def csr_write_def
          csr_write64_def cmd_writes_def write_0_4_events_def)
  have c1: "sdcard_write_chunk litex_cfg hw_ok 0 1 0 [] = Some write_0_1_events"
    by (simp add: litex_cfg_def sdcard_write_chunk_def sdcard_write_single_block_def
          hw_ok_run hw_ok_def csr_write_def csr_write64_def cmd_writes_def
          write_0_1_events_def)
  have w1: "sdcard_write litex_cfg hw_ok 0 1 0 [] = Some write_0_1_events"
    by (simp add: sdcard_write_def sdcard_write_loop.simps sdcard_write_chunk_def
          sdcard_write_single_block_def hw_ok_run hw_ok_def litex_cfg_def csr_write_def
          csr_write64_def cmd_writes_def write_0_1_events_def)
  have s1: "sdcard_send_command hw_ok 0 24
       (data_rsp litex_cfg (SDCARD_CTRL_DATA_TRANSFER_WRITE litex_cfg))
       [Wr BLOCK_LENGTH 512, Wr BLOCK_COUNT 1] = Some (SD_OK, write_single_ok_events)"
    by (simp add: hw_ok_run cmd_writes_def data_rsp_def litex_cfg_def
          write_single_ok_events_def)
  have s2: "sdcard_send_command hw_ok 0 25
       (data_rsp litex_cfg (SDCARD_CTRL_DATA_TRANSFER_WRITE litex_cfg))
       [Wr BLOCK_LENGTH 512, Wr BLOCK_COUNT 4] = Some (SD_OK, write_multiple_ok_events)"
    by (simp add: hw_ok_run cmd_writes_def data_rsp_def litex_cfg_def
          write_multiple_ok_events_def)
  have s3: "sdcard_send_command hw_crc_once 0 24
       (data_rsp litex_cfg (SDCARD_CTRL_DATA_TRANSFER_WRITE litex_cfg))
       [Wr BLOCK_LENGTH 512, Wr BLOCK_COUNT 1] = Some (SD_CRCERROR, write_single_crc_events)"
    by (simp add: hw_crc_once_first cmd_writes_def data_rsp_def litex_cfg_def
          writes_to_def write_single_crc_events_def)
  have s4: "sdcard_send_command hw_crc_once 0 25
       (data_rsp litex_cfg (SDCARD_CTRL_DATA_TRANSFER_WRITE litex_cfg))
       [Wr BLOCK_LENGTH 512, Wr BLOCK_COUNT 4]
       = Some (SD_CRCERROR, write_multiple_crc_events)"
    by (simp add: hw_crc_once_first cmd_writes_def data_rsp_def litex_cfg_def
          writes_to_def write_multiple_crc_events_def)
  have u3: "sdcard_send_command_until_ok hw_crc_once 0 24
       (data_rsp litex_cfg (SDCARD_CTRL_DATA_TRANSFER_WRITE litex_cfg)) write_single_crc_events
     = Some (write_single_crc_events
             @ [Wr CMD_ARGUMENT 0, Wr CMD_COMMAND 6209, Wr CMD_SEND 1,
                Rd CMD_EVENT 1, Busy_wait_us 10])"
    by (rule send_command_until_ok_done)
       (simp add: hw_crc_once_later cmd_writes_def data_rsp_def litex_cfg_def
          writes_to_def write_single_crc_events_def)
  have u4: "sdcard_send_command_until_ok hw_crc_once 0 25
       (data_rsp litex_cfg (SDCARD_CTRL_DATA_TRANSFER_WRITE litex_cfg)) write_multiple_crc_events
     = Some (write_multiple_crc_events
             @ [Wr CMD_ARGUMENT 0, Wr CMD_COMMAND 6465, Wr CMD_SEND 1,
                Rd CMD_EVENT 1, Busy_wait_us 10])"
    by (rule send_command_until_ok_done)
       (simp add: hw_crc_once_later cmd_writes_def data_rsp_def litex_cfg_def
          writes_to_def write_multiple_crc_events_def)
  from a a1 b c c1 w1 s1 s2 s3 s4 u3 u4 write_0_4_run hw_ok_completes show ?thesis
    by simp
qed

text \<open>
  C5. Block accounting of \<^verbatim>\<open>sdcard_read\<close>. Each pass of the loop turns the DMA writer
  off and on once and writes its \<open>nblocks\<close> to the block count register once. For
  \<open>count > 0\<close>, whenever the call returns: with multi-block read on there is one pass,
  with \<open>nblocks = count\<close>; with it off there are \<open>count\<close> passes of one block; the
  \<open>nblocks\<close> add up to \<open>count\<close>. On hardware that completes every command, data phase
  and DMA transfer at the first poll the call does return, and
  \<^verbatim>\<open>sdcard_read(100, 10, buf)\<close> with multi-block read on sends command 18 once, with
  argument 100, then command 12 once (after command 23 when \<^verbatim>\<open>SET_BLOCK_COUNT\<close> is
  on), and writes 5120 to the length register of the DMA writer.
\<close>

theorem read_block_accounting:
  "(count \<noteq> 0 \<and> sdcard_read cfg hw block count buf tr = Some tr' \<longrightarrow>
       writes_to BLOCK_COUNT (new_events tr tr') =
         (if SDCARD_CMD18_SUPPORT cfg then [count] else replicate (unat count) 1)
     \<and> sum_list (map unat (writes_to BLOCK_COUNT (new_events tr tr'))) = unat count
     \<and> writes_to BLOCK2MEM_DMA_ENABLE (new_events tr tr') =
         concat (replicate (if SDCARD_CMD18_SUPPORT cfg then 1 else unat count) [0, 1]))
   \<and> (completes_ok hw \<longrightarrow> (\<exists>tr'. sdcard_read cfg hw block count buf tr = Some tr'))
   \<and> (completes_ok hw \<and> SDCARD_CMD18_SUPPORT cfg
        \<and> sdcard_read cfg hw 100 10 buf tr = Some tr2 \<longrightarrow>
        opcodes (new_events tr tr2) = (if SDCARD_CMD23_SUPPORT cfg then [23] else []) @ [18, 12]
      \<and> writes_to CMD_ARGUMENT (new_events tr tr2) =
          (if SDCARD_CMD23_SUPPORT cfg then [10] else []) @ [100, 0]
      \<and> writes_to BLOCK2MEM_DMA_LENGTH (new_events tr tr2) = [5120])"
proof (intro conjI impI)
  let ?F = "if \<not> CONFIG_CPU_HAS_DMA_BUS cfg then [Flush_cpu_dcache, Flush_l2_cache] else []"
  have F: "writes_to r ?F = []" for r by (simp add: writes_to_Cons writes_to_Nil)
  assume a: "count \<noteq> 0 \<and> sdcard_read cfg hw block count buf tr = Some tr'"
  with read_appends_flush[of cfg hw block count buf tr tr'] obtain t1 where
    l: "sdcard_read_loop cfg hw block count buf tr = Some t1" and t: "tr' = t1 @ ?F" by blast
  from read_loop_accounting[OF l] a obtain evs where
    e: "t1 = tr @ evs"
      "writes_to BLOCK_COUNT evs =
         (if SDCARD_CMD18_SUPPORT cfg then [count] else replicate (unat count) 1)"
      "writes_to BLOCK2MEM_DMA_ENABLE evs =
         concat (replicate (if SDCARD_CMD18_SUPPORT cfg then 1 else unat count) [0, 1])"
    by auto
  from t e(1) have n: "new_events tr tr' = evs @ ?F" by (simp add: new_events_def)
  show bc: "writes_to BLOCK_COUNT (new_events tr tr') =
         (if SDCARD_CMD18_SUPPORT cfg then [count] else replicate (unat count) 1)"
    using e(2) by (simp only: n writes_to_append F append_Nil2)
  show "sum_list (map unat (writes_to BLOCK_COUNT (new_events tr tr'))) = unat count"
    by (simp add: bc sum_list_replicate)
  show "writes_to BLOCK2MEM_DMA_ENABLE (new_events tr tr') =
         concat (replicate (if SDCARD_CMD18_SUPPORT cfg then 1 else unat count) [0, 1])"
    using e(3) by (simp only: n writes_to_append F append_Nil2)
next
  assume "completes_ok hw"
  from ok_read_loop_returns[OF this, of cfg block count buf tr]
  show "\<exists>tr'. sdcard_read cfg hw block count buf tr = Some tr'"
    by (auto simp: sdcard_read_def)
next
  let ?F = "if \<not> CONFIG_CPU_HAS_DMA_BUS cfg then [Flush_cpu_dcache, Flush_l2_cache] else []"
  have F: "writes_to r ?F = []" "opcodes ?F = []" for r
    by (simp_all add: writes_to_Cons writes_to_Nil opcodes_Cons opcodes_Nil)
  assume a: "completes_ok hw \<and> SDCARD_CMD18_SUPPORT cfg
        \<and> sdcard_read cfg hw 100 10 buf tr = Some tr2"
  with read_appends_flush[of cfg hw 100 10 buf tr tr2] obtain t1 where
    l: "sdcard_read_loop cfg hw 100 10 buf tr = Some t1" and t: "tr2 = t1 @ ?F" by blast
  have "sdcard_read_loop cfg hw 100 10 buf tr = sdcard_read_chunk cfg hw 100 10 buf tr"
    using a by (intro read_loop_one_chunk) simp_all
  with l have ch: "sdcard_read_chunk cfg hw 100 10 buf tr = Some t1" by (simp only:)
  from a ok_read_chunk[of hw cfg 100 10 buf tr] ch obtain evs where
    e: "t1 = tr @ evs"
      "opcodes evs = (if SDCARD_CMD23_SUPPORT cfg then [23] else []) @ [18, 12]"
      "writes_to CMD_ARGUMENT evs = (if SDCARD_CMD23_SUPPORT cfg then [10] else []) @ [100, 0]"
    by auto
  from read_chunk_accounting[OF ch] e(1) have
    len: "writes_to BLOCK2MEM_DMA_LENGTH evs = [5120]" by auto
  from t e(1) have n: "new_events tr tr2 = evs @ ?F" by (simp add: new_events_def)
  show "opcodes (new_events tr tr2) = (if SDCARD_CMD23_SUPPORT cfg then [23] else []) @ [18, 12]"
    using e(2) by (simp only: n opcodes_append F append_Nil2)
  show "writes_to CMD_ARGUMENT (new_events tr tr2) =
          (if SDCARD_CMD23_SUPPORT cfg then [10] else []) @ [100, 0]"
    using e(3) by (simp only: n writes_to_append F append_Nil2)
  show "writes_to BLOCK2MEM_DMA_LENGTH (new_events tr tr2) = [5120]"
    using len by (simp only: n writes_to_append F append_Nil2)
qed

theorem read_block_accounting_witness:
  "(10 :: 32 word) \<noteq> 0 \<and> completes_ok hw_ok \<and> SDCARD_CMD18_SUPPORT litex_cfg
   \<and> sdcard_read litex_cfg hw_ok 100 10 0 [] = Some read_100_10_events
   \<and> writes_to BLOCK_COUNT (new_events [] read_100_10_events) = [10]
   \<and> opcodes (new_events [] read_100_10_events) = [18, 12]
   \<and> writes_to CMD_ARGUMENT (new_events [] read_100_10_events) = [100, 0]
   \<and> writes_to BLOCK2MEM_DMA_LENGTH (new_events [] read_100_10_events) = [5120]"
  using read_block_accounting
          [of 10 litex_cfg hw_ok 100 0 "[]" read_100_10_events read_100_10_events]
    read_100_10_run hw_ok_completes
  by (simp add: litex_cfg_def)


text \<open>
  C2, as the claim states it: on hardware that never sets bit 0 of the command event
  register, \<^verbatim>\<open>sd_disk_initialize\<close> would return \<^verbatim>\<open>STA_NOINIT\<close> after 1000 attempts.
  It does not return: the first \<^verbatim>\<open>sdcard_go_idle\<close> polls for ever.
\<close>

theorem initialize_never_done_counterexample:
  "hw_never_done [] CMD_EVENT AND 1 = 0
   \<and> sd_disk_initialize litex_cfg hw_never_done 0 (driver_start litex_cfg) = None"
  by (simp add: sd_disk_initialize_def driver_start_def litex_cfg_def hw_never_done_def
        never_done_init)

text \<open>
  C2, amended. When every \<^verbatim>\<open>GO_IDLE\<close> of the idle loop completes with a result other
  than \<open>SD_OK\<close> (the hardware sets the timeout or CRC flag, at whichever poll, as it does
  when no card answers), \<^verbatim>\<open>sd_disk_initialize\<close> on a driver that is not ready returns
  \<^verbatim>\<open>STA_NOINIT\<close> after 1000 attempts and nothing else: the register writes of the call are
  the divider of the initialisation clock and 1000 times the idle-clock trigger with
  command 0. That is the case on every hardware on which \<^verbatim>\<open>sdcard_go_idle\<close> never
  returns \<open>SD_OK\<close>. On hardware that never sets the done flag the call does not return.
\<close>

theorem initialize_card_absent:
  "(go_idle_fails cfg hw 1000
        (busy_wait 1 (sdcard_set_clk_freq cfg SDCARD_CLK_FREQ_INIT 0 (events d)))
      \<and> sdcardstatus d \<noteq> 0 \<longrightarrow>
      (\<exists>tr'. sd_disk_initialize cfg hw 0 d
                = Some (STA_NOINIT cfg, d\<lparr>sdcardstatus := STA_NOINIT cfg, events := tr'\<rparr>)
         \<and> writes (new_events (events d) tr') =
              Wr PHY_CLOCKER_DIVIDER (clk_divider cfg SDCARD_CLK_FREQ_INIT)
              # concat (replicate 1000 (idle_attempt cfg))
         \<and> opcodes (new_events (events d) tr') = replicate 1000 0))
   \<and> ((\<forall>tr. \<exists>r tr'. sdcard_go_idle cfg hw tr = Some (r, tr') \<and> r \<noteq> SD_OK) \<longrightarrow>
        go_idle_fails cfg hw k tr0)
   \<and> ((\<forall>tr. hw2 tr CMD_EVENT AND 1 = 0) \<and> sdcardstatus d2 \<noteq> 0 \<longrightarrow>
        sd_disk_initialize cfg hw2 0 d2 = None)"
proof (intro conjI impI)
  assume a: "go_idle_fails cfg hw 1000
        (busy_wait 1 (sdcard_set_clk_freq cfg SDCARD_CLK_FREQ_INIT 0 (events d)))
      \<and> sdcardstatus d \<noteq> 0"
  then have "go_idle_fails cfg hw 1000
        (busy_wait 1 (sdcard_set_clk_freq cfg SDCARD_CLK_FREQ_INIT 0 (events d)))"
    by simp
  from go_idle_fails_init[OF this] obtain tr' where
    i: "sdcard_init cfg hw (events d) = Some (0, tr')"
    and w: "writes (new_events (events d) tr') =
              Wr PHY_CLOCKER_DIVIDER (clk_divider cfg SDCARD_CLK_FREQ_INIT)
              # concat (replicate 1000 (idle_attempt cfg))"
    by blast
  have "opcodes (writes (new_events (events d) tr')) = replicate 1000 0"
    unfolding w
    by (simp add: opcodes_Cons opcodes_concat_replicate opcodes_idle_attempt
          concat_replicate_single)
  then have o: "opcodes (new_events (events d) tr') = replicate 1000 0"
    by (simp only: opcodes_writes)
  from a i have "sd_disk_initialize cfg hw 0 d
                = Some (STA_NOINIT cfg, d\<lparr>sdcardstatus := STA_NOINIT cfg, events := tr'\<rparr>)"
    by (simp add: sd_disk_initialize_def)
  with w o show "\<exists>tr'. sd_disk_initialize cfg hw 0 d
                = Some (STA_NOINIT cfg, d\<lparr>sdcardstatus := STA_NOINIT cfg, events := tr'\<rparr>)
         \<and> writes (new_events (events d) tr') =
              Wr PHY_CLOCKER_DIVIDER (clk_divider cfg SDCARD_CLK_FREQ_INIT)
              # concat (replicate 1000 (idle_attempt cfg))
         \<and> opcodes (new_events (events d) tr') = replicate 1000 0"
    by blast
next
  assume "\<forall>tr. \<exists>r tr'. sdcard_go_idle cfg hw tr = Some (r, tr') \<and> r \<noteq> SD_OK"
  then show "go_idle_fails cfg hw k tr0"
    by (rule go_idle_never_ok_fails)
next
  assume "(\<forall>tr. hw2 tr CMD_EVENT AND 1 = 0) \<and> sdcardstatus d2 \<noteq> 0"
  then show "sd_disk_initialize cfg hw2 0 d2 = None"
    by (simp add: sd_disk_initialize_def never_done_init)
qed

theorem initialize_card_absent_witness:
  "(\<forall>tr. \<exists>r tr'. sdcard_go_idle litex_cfg hw_late tr = Some (r, tr') \<and> r \<noteq> SD_OK)
   \<and> hw_late [Wr CMD_SEND 1] CMD_EVENT AND 1 = 0
   \<and> go_idle_fails litex_cfg hw_late 1000
        (busy_wait 1 (sdcard_set_clk_freq litex_cfg SDCARD_CLK_FREQ_INIT 0
                        (events (driver_start litex_cfg))))
   \<and> sdcardstatus (driver_start litex_cfg) \<noteq> 0
   \<and> (\<forall>tr. hw_never_done tr CMD_EVENT AND 1 = 0)
   \<and> (\<exists>tr'. sd_disk_initialize litex_cfg hw_late 0 (driver_start litex_cfg)
                = Some (STA_NOINIT litex_cfg,
                        (driver_start litex_cfg)
                          \<lparr>sdcardstatus := STA_NOINIT litex_cfg, events := tr'\<rparr>)
         \<and> opcodes (new_events (events (driver_start litex_cfg)) tr') = replicate 1000 0)
   \<and> sd_disk_initialize litex_cfg hw_never_done 0 (driver_start litex_cfg) = None"
proof -
  note t = initialize_card_absent
    [where cfg = litex_cfg and hw = hw_late and d = "driver_start litex_cfg" and k = 1000
       and ?tr0.0 = "busy_wait 1 (sdcard_set_clk_freq litex_cfg SDCARD_CLK_FREQ_INIT 0
                        (events (driver_start litex_cfg)))"
       and ?hw2.0 = hw_never_done and ?d2.0 = "driver_start litex_cfg"]
  have h: "\<forall>tr. \<exists>r tr'. sdcard_go_idle litex_cfg hw_late tr = Some (r, tr') \<and> r \<noteq> SD_OK"
    by (rule hw_late_go_idle_fails)
  have l: "hw_late [Wr CMD_SEND 1] CMD_EVENT AND 1 = 0"
    by (simp add: hw_late_def)
  have s: "sdcardstatus (driver_start litex_cfg) \<noteq> 0"
    by (simp add: driver_start_def litex_cfg_def)
  have n: "\<forall>tr. hw_never_done tr CMD_EVENT AND 1 = 0"
    by (simp add: hw_never_done_def)
  from t h have f: "go_idle_fails litex_cfg hw_late 1000
        (busy_wait 1 (sdcard_set_clk_freq litex_cfg SDCARD_CLK_FREQ_INIT 0
                        (events (driver_start litex_cfg))))"
    by blast
  from t f s n h l show ?thesis by blast
qed

text \<open>
  C8. The stored status starts as \<^verbatim>\<open>STA_NOINIT\<close>. \<^verbatim>\<open>sd_disk_initialize\<close> turns a status
  that is not ready into ready (0) only when it ran \<^verbatim>\<open>sdcard_init\<close> and that returned 1,
  which it does only after the whole bring-up: the register writes of the call are then
  those of all the steps up to \<^verbatim>\<open>SET_BLOCKLEN\<close>. When \<^verbatim>\<open>sdcard_init\<close> returns 0 the
  status is \<^verbatim>\<open>STA_NOINIT\<close> again. Once the status is ready, \<^verbatim>\<open>sd_disk_initialize\<close>
  returns ready and adds no event. \<^verbatim>\<open>STA_NOINIT\<close> is a status other than ready.
\<close>

theorem disk_status_lifecycle:
  assumes "STA_NOINIT cfg \<noteq> 0"
  shows "sdcardstatus (driver_start cfg) = STA_NOINIT cfg
   \<and> sd_disk_status cfg 0 (driver_start cfg) \<noteq> 0
   \<and> (sd_disk_initialize cfg hw drv d = Some (s, d') \<and> sdcardstatus d \<noteq> 0
        \<and> sdcardstatus d' = 0 \<longrightarrow>
        drv = 0 \<and> s = 0 \<and> sdcard_init cfg hw (events d) = Some (1, events d')
        \<and> (\<exists>i j k m rca. 0 < i \<and> i \<le> 1000 \<and> 0 < j \<and> j \<le> 1000
              \<and> writes (new_events (events d) (events d'))
                    = init_writes cfg i j (Suc k) (Suc m) rca))
   \<and> (sdcardstatus d2 \<noteq> 0 \<and> sdcard_init cfg hw2 (events d2) = Some (0, tr2) \<longrightarrow>
        sd_disk_initialize cfg hw2 0 d2
          = Some (STA_NOINIT cfg, d2\<lparr>sdcardstatus := STA_NOINIT cfg, events := tr2\<rparr>))
   \<and> (sdcardstatus d3 = 0 \<longrightarrow> sd_disk_initialize cfg hw3 0 d3 = Some (0, d3))"
proof (intro conjI impI)
  show "sdcardstatus (driver_start cfg) = STA_NOINIT cfg" by (simp add: driver_start_def)
  show "sd_disk_status cfg 0 (driver_start cfg) \<noteq> 0"
    using assms by (simp add: sd_disk_status_def driver_start_def)
next
  assume a: "sd_disk_initialize cfg hw drv d = Some (s, d') \<and> sdcardstatus d \<noteq> 0
        \<and> sdcardstatus d' = 0"
  then have run: "sd_disk_initialize cfg hw drv d = Some (s, d')"
    and before: "sdcardstatus d \<noteq> 0" and after: "sdcardstatus d' = 0"
    by blast+
  show drv: "drv = 0"
  proof (rule ccontr)
    assume "drv \<noteq> 0"
    with run have "d' = d" by (simp add: sd_disk_initialize_def)
    with before after show False by simp
  qed
  obtain r tr where i: "sdcard_init cfg hw (events d) = Some (r, tr)"
    using run drv before
    by (cases "sdcard_init cfg hw (events d)") (auto simp: sd_disk_initialize_def)
  with run drv before have
    s: "s = (if r \<noteq> 0 then 0 else STA_NOINIT cfg)"
    and st: "sdcardstatus d' = (if r \<noteq> 0 then 0 else STA_NOINIT cfg)"
    and ev: "events d' = tr"
    by (auto simp: sd_disk_initialize_def Let_def)
  have r: "r \<noteq> 0"
  proof
    assume "r = 0"
    with st have "sdcardstatus d' = STA_NOINIT cfg" by simp
    with after assms show False by simp
  qed
  with s show "s = 0" by simp
  from init_success_writes[OF i r] have r1: "r = 1"
    and w: "\<exists>i j k m rca. 0 < i \<and> i \<le> 1000 \<and> 0 < j \<and> j \<le> 1000
              \<and> writes (new_events (events d) tr) = init_writes cfg i j (Suc k) (Suc m) rca"
    by blast+
  from i r1 ev show "sdcard_init cfg hw (events d) = Some (1, events d')" by simp
  from w ev show "\<exists>i j k m rca. 0 < i \<and> i \<le> 1000 \<and> 0 < j \<and> j \<le> 1000
              \<and> writes (new_events (events d) (events d'))
                    = init_writes cfg i j (Suc k) (Suc m) rca"
    by (simp only:)
next
  assume "sdcardstatus d2 \<noteq> 0 \<and> sdcard_init cfg hw2 (events d2) = Some (0, tr2)"
  then show "sd_disk_initialize cfg hw2 0 d2
          = Some (STA_NOINIT cfg, d2\<lparr>sdcardstatus := STA_NOINIT cfg, events := tr2\<rparr>)"
    by (simp add: sd_disk_initialize_def)
next
  assume "sdcardstatus d3 = 0"
  then show "sd_disk_initialize cfg hw3 0 d3 = Some (0, d3)"
    by (simp add: sd_disk_initialize_def)
qed

theorem disk_status_lifecycle_witness:
  "STA_NOINIT litex_cfg \<noteq> 0
   \<and> sd_disk_initialize litex_cfg hw_ok 0 (driver_start litex_cfg)
       = Some (0, \<lparr>sdcardstatus = 0, events = init_ok_events\<rparr>)
   \<and> sdcardstatus (driver_start litex_cfg) \<noteq> 0
   \<and> sdcard_init litex_cfg hw_legacy (events (driver_start litex_cfg))
       = Some (0, init_legacy_events)
   \<and> sd_disk_initialize litex_cfg hw_legacy 0 (driver_start litex_cfg)
       = Some (1, \<lparr>sdcardstatus = 1, events = init_legacy_events\<rparr>)
   \<and> sd_disk_initialize litex_cfg hw_legacy 0 \<lparr>sdcardstatus = 0, events = init_ok_events\<rparr>
       = Some (0, \<lparr>sdcardstatus = 0, events = init_ok_events\<rparr>)
   \<and> sdcard_init litex_cfg hw_ok [] = Some (1, init_ok_events)"
  using disk_status_lifecycle
          [of litex_cfg hw_ok 0 "driver_start litex_cfg" 0
              "\<lparr>sdcardstatus = 0, events = init_ok_events\<rparr>"
              "driver_start litex_cfg" hw_legacy init_legacy_events
              "\<lparr>sdcardstatus = 0, events = init_ok_events\<rparr>" hw_legacy]
    init_ok_run init_legacy_run
  by (simp add: sd_disk_initialize_def driver_start_def litex_cfg_def)

text \<open>
  C10. \<^verbatim>\<open>sdcard_switch\<close> writes block length 64 and block count 1 first and sends
  \<^verbatim>\<open>SWITCH_FUNC\<close> (opcode 6) after that; \<^verbatim>\<open>sdcard_app_send_scr\<close> writes block length 8
  and block count 1 first and sends \<^verbatim>\<open>APP_SEND_SCR\<close> (opcode 51) after that. In a
  bring-up that goes through, the block length register is written twice, with 64 and
  with 8; the 512 comes last, as the argument of \<^verbatim>\<open>SET_BLOCKLEN\<close> (opcode 16), which
  writes no geometry register. The block read and write commands write block length
  512 and their block count before anything else: on every hardware each of the four is
  its command (opcode 17, 18, 24, 25) sent until it reports \<open>SD_OK\<close> on the events so far
  followed by these two writes (and then, for the reads, the wait for the data phase),
  and on hardware that completes at once each of the four returns, with the two writes
  first and its command sent once.
\<close>

theorem bring_up_block_geometry:
  "(sdcard_switch cfg hw mode grp val tr = Some (r, tr') \<longrightarrow>
      (\<exists>evs k. new_events tr tr' = [Wr BLOCK_LENGTH 64, Wr BLOCK_COUNT 1] @ evs
         \<and> writes evs = concat (replicate (Suc k)
              (cmd_writes (switch_arg mode grp val) 6
                 (data_rsp cfg (SDCARD_CTRL_DATA_TRANSFER_READ cfg))))))
   \<and> (sdcard_app_send_scr cfg hw tr = Some (r2, tr2) \<longrightarrow>
      (\<exists>evs k. new_events tr tr2 = [Wr BLOCK_LENGTH 8, Wr BLOCK_COUNT 1] @ evs
         \<and> writes evs = concat (replicate (Suc k)
              (cmd_writes 0 51 (data_rsp cfg (SDCARD_CTRL_DATA_TRANSFER_READ cfg))))))
   \<and> (sdcard_init cfg hw tr = Some (r3, tr3) \<and> r3 \<noteq> 0 \<longrightarrow>
        writes_to BLOCK_LENGTH (new_events tr tr3) = [64, 8]
      \<and> writes_to BLOCK_COUNT (new_events tr tr3) = [1, 1]
      \<and> (\<exists>i j k m rca. writes (new_events tr tr3) = init_writes cfg i j (Suc k) (Suc m) rca))
   \<and> (sdcard_app_set_blocklen cfg hw 512 tr = Some (r4, tr4) \<longrightarrow>
        writes (new_events tr tr4)
          = cmd_writes 512 16 (ucast (SDCARD_CTRL_RESPONSE_SHORT cfg)))
   \<and> ((if 1 < n then sdcard_read_multiple_block cfg hw block n tr
        else sdcard_read_single_block cfg hw block tr) = Some (r5, tr5) \<longrightarrow>
        take 2 (new_events tr tr5)
          = [Wr BLOCK_LENGTH 512, Wr BLOCK_COUNT (if 1 < n then n else 1)])
   \<and> ((if 1 < n then sdcard_write_multiple_block cfg hw block n tr
        else sdcard_write_single_block cfg hw block tr) = Some (r6, tr6) \<longrightarrow>
        take 2 (new_events tr tr6)
          = [Wr BLOCK_LENGTH 512, Wr BLOCK_COUNT (if 1 < n then n else 1)])
   \<and> sdcard_read_single_block cfg hw block tr =
       Option.bind
         (sdcard_send_command_until_ok hw block 17
            (data_rsp cfg (SDCARD_CTRL_DATA_TRANSFER_READ cfg))
            (tr @ [Wr BLOCK_LENGTH 512, Wr BLOCK_COUNT 1]))
         (sdcard_wait_data_done hw)
   \<and> sdcard_read_multiple_block cfg hw block n tr =
       Option.bind
         (sdcard_send_command_until_ok hw block 18
            (data_rsp cfg (SDCARD_CTRL_DATA_TRANSFER_READ cfg))
            (tr @ [Wr BLOCK_LENGTH 512, Wr BLOCK_COUNT n]))
         (sdcard_wait_data_done hw)
   \<and> sdcard_write_single_block cfg hw block tr =
       map_option (Pair SD_OK)
         (sdcard_send_command_until_ok hw block 24
            (data_rsp cfg (SDCARD_CTRL_DATA_TRANSFER_WRITE cfg))
            (tr @ [Wr BLOCK_LENGTH 512, Wr BLOCK_COUNT 1]))
   \<and> sdcard_write_multiple_block cfg hw block n tr =
       map_option (Pair SD_OK)
         (sdcard_send_command_until_ok hw block 25
            (data_rsp cfg (SDCARD_CTRL_DATA_TRANSFER_WRITE cfg))
            (tr @ [Wr BLOCK_LENGTH 512, Wr BLOCK_COUNT n]))
   \<and> (completes_ok hw \<longrightarrow>
        (\<exists>r evs. sdcard_read_single_block cfg hw block tr
                    = Some (r, tr @ [Wr BLOCK_LENGTH 512, Wr BLOCK_COUNT 1] @ evs)
           \<and> opcodes evs = [17])
      \<and> (\<exists>r evs. sdcard_read_multiple_block cfg hw block n tr
                    = Some (r, tr @ [Wr BLOCK_LENGTH 512, Wr BLOCK_COUNT n] @ evs)
           \<and> opcodes evs = [18])
      \<and> (\<exists>evs. sdcard_write_single_block cfg hw block tr
                    = Some (SD_OK, tr @ [Wr BLOCK_LENGTH 512, Wr BLOCK_COUNT 1] @ evs)
           \<and> opcodes evs = [24])
      \<and> (\<exists>evs. sdcard_write_multiple_block cfg hw block n tr
                    = Some (SD_OK, tr @ [Wr BLOCK_LENGTH 512, Wr BLOCK_COUNT n] @ evs)
           \<and> opcodes evs = [25]))"
proof (intro conjI impI)
  assume "sdcard_switch cfg hw mode grp val tr = Some (r, tr')"
  from switch_writes[OF this]
  show "\<exists>evs k. new_events tr tr' = [Wr BLOCK_LENGTH 64, Wr BLOCK_COUNT 1] @ evs
         \<and> writes evs = concat (replicate (Suc k)
              (cmd_writes (switch_arg mode grp val) 6
                 (data_rsp cfg (SDCARD_CTRL_DATA_TRANSFER_READ cfg))))"
    by (elim exE conjE) (simp only: new_events_append, blast)
next
  assume "sdcard_app_send_scr cfg hw tr = Some (r2, tr2)"
  from app_send_scr_writes[OF this]
  show "\<exists>evs k. new_events tr tr2 = [Wr BLOCK_LENGTH 8, Wr BLOCK_COUNT 1] @ evs
         \<and> writes evs = concat (replicate (Suc k)
              (cmd_writes 0 51 (data_rsp cfg (SDCARD_CTRL_DATA_TRANSFER_READ cfg))))"
    by (elim exE conjE) (simp only: new_events_append, blast)
next
  assume a: "sdcard_init cfg hw tr = Some (r3, tr3) \<and> r3 \<noteq> 0"
  then have i: "sdcard_init cfg hw tr = Some (r3, tr3)" and r: "r3 \<noteq> 0" by simp_all
  from init_success_writes[OF i r] obtain i j k m rca where
    w: "writes (new_events tr tr3) = init_writes cfg i j (Suc k) (Suc m) rca" by blast
  then show "\<exists>i j k m rca. writes (new_events tr tr3) = init_writes cfg i j (Suc k) (Suc m) rca"
    by blast
  have "writes_to BLOCK_LENGTH (writes (new_events tr tr3)) = [64, 8]"
    unfolding w by (rule writes_to_init_writes)
  then show "writes_to BLOCK_LENGTH (new_events tr tr3) = [64, 8]"
    by (simp only: writes_to_writes)
  have "writes_to BLOCK_COUNT (writes (new_events tr tr3)) = [1, 1]"
    unfolding w by (rule writes_to_init_writes)
  then show "writes_to BLOCK_COUNT (new_events tr tr3) = [1, 1]"
    by (simp only: writes_to_writes)
next
  assume "sdcard_app_set_blocklen cfg hw 512 tr = Some (r4, tr4)"
  from send_command_writes[OF this[unfolded sdcard_app_set_blocklen_def]]
  show "writes (new_events tr tr4) = cmd_writes 512 16 (ucast (SDCARD_CTRL_RESPONSE_SHORT cfg))"
    by (auto simp: new_events_append)
next
  assume "(if 1 < n then sdcard_read_multiple_block cfg hw block n tr
        else sdcard_read_single_block cfg hw block tr) = Some (r5, tr5)"
  from read_block_appends[OF this]
  show "take 2 (new_events tr tr5)
          = [Wr BLOCK_LENGTH 512, Wr BLOCK_COUNT (if 1 < n then n else 1)]"
    by (auto simp: new_events_append)
next
  assume "(if 1 < n then sdcard_write_multiple_block cfg hw block n tr
        else sdcard_write_single_block cfg hw block tr) = Some (r6, tr6)"
  from write_block_appends[OF this]
  show "take 2 (new_events tr tr6)
          = [Wr BLOCK_LENGTH 512, Wr BLOCK_COUNT (if 1 < n then n else 1)]"
    by (auto simp: new_events_append)
next
  show "sdcard_read_single_block cfg hw block tr =
       Option.bind
         (sdcard_send_command_until_ok hw block 17
            (data_rsp cfg (SDCARD_CTRL_DATA_TRANSFER_READ cfg))
            (tr @ [Wr BLOCK_LENGTH 512, Wr BLOCK_COUNT 1]))
         (sdcard_wait_data_done hw)"
    by (rule read_single_block_eq)
next
  show "sdcard_read_multiple_block cfg hw block n tr =
       Option.bind
         (sdcard_send_command_until_ok hw block 18
            (data_rsp cfg (SDCARD_CTRL_DATA_TRANSFER_READ cfg))
            (tr @ [Wr BLOCK_LENGTH 512, Wr BLOCK_COUNT n]))
         (sdcard_wait_data_done hw)"
    by (rule read_multiple_block_eq)
next
  show "sdcard_write_single_block cfg hw block tr =
       map_option (Pair SD_OK)
         (sdcard_send_command_until_ok hw block 24
            (data_rsp cfg (SDCARD_CTRL_DATA_TRANSFER_WRITE cfg))
            (tr @ [Wr BLOCK_LENGTH 512, Wr BLOCK_COUNT 1]))"
    by (rule write_single_block_eq)
next
  show "sdcard_write_multiple_block cfg hw block n tr =
       map_option (Pair SD_OK)
         (sdcard_send_command_until_ok hw block 25
            (data_rsp cfg (SDCARD_CTRL_DATA_TRANSFER_WRITE cfg))
            (tr @ [Wr BLOCK_LENGTH 512, Wr BLOCK_COUNT n]))"
    by (rule write_multiple_block_eq)
next
  assume c: "completes_ok hw"
  from ok_block_commands[OF c]
  show "\<exists>r evs. sdcard_read_single_block cfg hw block tr
                    = Some (r, tr @ [Wr BLOCK_LENGTH 512, Wr BLOCK_COUNT 1] @ evs)
           \<and> opcodes evs = [17]"
    by blast
  from ok_block_commands[OF c]
  show "\<exists>r evs. sdcard_read_multiple_block cfg hw block n tr
                    = Some (r, tr @ [Wr BLOCK_LENGTH 512, Wr BLOCK_COUNT n] @ evs)
           \<and> opcodes evs = [18]"
    by blast
  from ok_block_commands[OF c]
  show "\<exists>evs. sdcard_write_single_block cfg hw block tr
                    = Some (SD_OK, tr @ [Wr BLOCK_LENGTH 512, Wr BLOCK_COUNT 1] @ evs)
           \<and> opcodes evs = [24]"
    by blast
  from ok_block_commands[OF c]
  show "\<exists>evs. sdcard_write_multiple_block cfg hw block n tr
                    = Some (SD_OK, tr @ [Wr BLOCK_LENGTH 512, Wr BLOCK_COUNT n] @ evs)
           \<and> opcodes evs = [25]"
    by blast
qed

theorem bring_up_block_geometry_witness:
  "sdcard_switch litex_cfg hw_ok 1 0 1 [] =
     Some (SD_OK, [Wr BLOCK_LENGTH 64, Wr BLOCK_COUNT 1, Wr CMD_ARGUMENT 2164260849,
                   Wr CMD_COMMAND 1569, Wr CMD_SEND 1, Rd CMD_EVENT 1, Busy_wait_us 10,
                   Rd DATA_EVENT 1])
   \<and> sdcard_app_send_scr litex_cfg hw_ok [] =
     Some (SD_OK, [Wr BLOCK_LENGTH 8, Wr BLOCK_COUNT 1, Wr CMD_ARGUMENT 0,
                   Wr CMD_COMMAND 13089, Wr CMD_SEND 1, Rd CMD_EVENT 1, Busy_wait_us 10,
                   Rd DATA_EVENT 1])
   \<and> sdcard_init litex_cfg hw_ok [] = Some (1, init_ok_events) \<and> (1 :: 32 word) \<noteq> 0
   \<and> sdcard_app_set_blocklen litex_cfg hw_ok 512 [] =
     Some (SD_OK, [Wr CMD_ARGUMENT 512, Wr CMD_COMMAND 4097, Wr CMD_SEND 1, Rd CMD_EVENT 1,
                   Busy_wait_us 10])
   \<and> (if (1 :: 32 word) < 2 then sdcard_read_multiple_block litex_cfg hw_ok 0 2 []
        else sdcard_read_single_block litex_cfg hw_ok 0 []) = Some (SD_OK, read_multiple_run)
   \<and> take 2 (new_events [] read_multiple_run) = [Wr BLOCK_LENGTH 512, Wr BLOCK_COUNT 2]
   \<and> (if (1 :: 32 word) < 2 then sdcard_write_multiple_block litex_cfg hw_ok 0 2 []
        else sdcard_write_single_block litex_cfg hw_ok 0 []) = Some (SD_OK, write_multiple_run)
   \<and> take 2 (new_events [] write_multiple_run) = [Wr BLOCK_LENGTH 512, Wr BLOCK_COUNT 2]
   \<and> (if (1 :: 32 word) < 1 then sdcard_read_multiple_block litex_cfg hw_ok 0 1 []
        else sdcard_read_single_block litex_cfg hw_ok 0 []) = Some (SD_OK, read_single_run)
   \<and> take 2 (new_events [] read_single_run) = [Wr BLOCK_LENGTH 512, Wr BLOCK_COUNT 1]
   \<and> (if (1 :: 32 word) < 1 then sdcard_write_multiple_block litex_cfg hw_ok 0 1 []
        else sdcard_write_single_block litex_cfg hw_ok 0 []) = Some (SD_OK, write_single_ok_events)
   \<and> take 2 (new_events [] write_single_ok_events) = [Wr BLOCK_LENGTH 512, Wr BLOCK_COUNT 1]
   \<and> writes_to BLOCK_LENGTH (new_events [] init_ok_events) = [64, 8]
   \<and> writes_to BLOCK_COUNT (new_events [] init_ok_events) = [1, 1]
   \<and> completes_ok hw_ok
   \<and> (\<exists>evs. sdcard_write_single_block litex_cfg hw_ok 0 []
                = Some (SD_OK, [] @ [Wr BLOCK_LENGTH 512, Wr BLOCK_COUNT 1] @ evs)
         \<and> opcodes evs = [24])
   \<and> (\<exists>r evs. sdcard_read_single_block litex_cfg hw_ok 0 []
                = Some (r, [] @ [Wr BLOCK_LENGTH 512, Wr BLOCK_COUNT 1] @ evs)
         \<and> opcodes evs = [17])"
proof -
  note a = bring_up_block_geometry
    [where cfg = litex_cfg and hw = hw_ok and mode = 1 and grp = 0 and val = 1 and tr = "[]"
       and r = SD_OK
       and tr' = "[Wr BLOCK_LENGTH 64, Wr BLOCK_COUNT 1, Wr CMD_ARGUMENT 2164260849,
                   Wr CMD_COMMAND 1569, Wr CMD_SEND 1, Rd CMD_EVENT 1, Busy_wait_us 10,
                   Rd DATA_EVENT 1]"
       and ?r2.0 = SD_OK
       and ?tr2.0 = "[Wr BLOCK_LENGTH 8, Wr BLOCK_COUNT 1, Wr CMD_ARGUMENT 0,
                   Wr CMD_COMMAND 13089, Wr CMD_SEND 1, Rd CMD_EVENT 1, Busy_wait_us 10,
                   Rd DATA_EVENT 1]"
       and ?r3.0 = 1 and ?tr3.0 = init_ok_events
       and ?r4.0 = SD_OK
       and ?tr4.0 = "[Wr CMD_ARGUMENT 512, Wr CMD_COMMAND 4097, Wr CMD_SEND 1, Rd CMD_EVENT 1,
                   Busy_wait_us 10]"
       and n = 2 and block = 0
       and ?r5.0 = SD_OK and ?tr5.0 = read_multiple_run
       and ?r6.0 = SD_OK and ?tr6.0 = write_multiple_run]
  note b = bring_up_block_geometry
    [where cfg = litex_cfg and hw = hw_ok and tr = "[]" and n = 1 and block = 0
       and ?r5.0 = SD_OK and ?tr5.0 = read_single_run
       and ?r6.0 = SD_OK and ?tr6.0 = write_single_ok_events]
  have sw: "sdcard_switch litex_cfg hw_ok 1 0 1 [] =
     Some (SD_OK, [Wr BLOCK_LENGTH 64, Wr BLOCK_COUNT 1, Wr CMD_ARGUMENT 2164260849,
                   Wr CMD_COMMAND 1569, Wr CMD_SEND 1, Rd CMD_EVENT 1, Busy_wait_us 10,
                   Rd DATA_EVENT 1])"
    by (simp add: sdcard_switch_def hw_ok_run litex_cfg_def csr_write_def cmd_writes_def
          Let_def)
  have scr: "sdcard_app_send_scr litex_cfg hw_ok [] =
     Some (SD_OK, [Wr BLOCK_LENGTH 8, Wr BLOCK_COUNT 1, Wr CMD_ARGUMENT 0,
                   Wr CMD_COMMAND 13089, Wr CMD_SEND 1, Rd CMD_EVENT 1, Busy_wait_us 10,
                   Rd DATA_EVENT 1])"
    by (simp add: sdcard_app_send_scr_def hw_ok_run litex_cfg_def csr_write_def
          cmd_writes_def Let_def)
  have bl: "sdcard_app_set_blocklen litex_cfg hw_ok 512 [] =
     Some (SD_OK, [Wr CMD_ARGUMENT 512, Wr CMD_COMMAND 4097, Wr CMD_SEND 1, Rd CMD_EVENT 1,
                   Busy_wait_us 10])"
    by (simp add: sdcard_app_set_blocklen_def hw_ok_run litex_cfg_def cmd_writes_def)
  have rm: "sdcard_read_multiple_block litex_cfg hw_ok 0 2 [] = Some (SD_OK, read_multiple_run)"
    by (simp add: sdcard_read_multiple_block_def hw_ok_run litex_cfg_def csr_write_def
          cmd_writes_def read_multiple_run_def Let_def)
  have wm: "sdcard_write_multiple_block litex_cfg hw_ok 0 2 [] = Some (SD_OK, write_multiple_run)"
    by (simp add: sdcard_write_multiple_block_def hw_ok_run litex_cfg_def csr_write_def
          cmd_writes_def write_multiple_run_def Let_def)
  have rs: "sdcard_read_single_block litex_cfg hw_ok 0 [] = Some (SD_OK, read_single_run)"
    by (simp add: sdcard_read_single_block_def hw_ok_run litex_cfg_def csr_write_def
          cmd_writes_def read_single_run_def Let_def)
  have ws: "sdcard_write_single_block litex_cfg hw_ok 0 [] = Some (SD_OK, write_single_ok_events)"
    by (simp add: sdcard_write_single_block_def hw_ok_run litex_cfg_def csr_write_def
          cmd_writes_def write_single_ok_events_def Let_def)
  from a sw scr bl rm wm init_ok_run
  have p1: "take 2 (new_events [] read_multiple_run) = [Wr BLOCK_LENGTH 512, Wr BLOCK_COUNT 2]
    \<and> take 2 (new_events [] write_multiple_run) = [Wr BLOCK_LENGTH 512, Wr BLOCK_COUNT 2]
    \<and> writes_to BLOCK_LENGTH (new_events [] init_ok_events) = [64, 8]
    \<and> writes_to BLOCK_COUNT (new_events [] init_ok_events) = [1, 1]"
    by simp
  from b rs ws
  have p2: "take 2 (new_events [] read_single_run) = [Wr BLOCK_LENGTH 512, Wr BLOCK_COUNT 1]
    \<and> take 2 (new_events [] write_single_ok_events) = [Wr BLOCK_LENGTH 512, Wr BLOCK_COUNT 1]"
    by simp
  from b hw_ok_completes
  have p3: "(\<exists>evs. sdcard_write_single_block litex_cfg hw_ok 0 []
                = Some (SD_OK, [] @ [Wr BLOCK_LENGTH 512, Wr BLOCK_COUNT 1] @ evs)
         \<and> opcodes evs = [24])
   \<and> (\<exists>r evs. sdcard_read_single_block litex_cfg hw_ok 0 []
                = Some (r, [] @ [Wr BLOCK_LENGTH 512, Wr BLOCK_COUNT 1] @ evs)
         \<and> opcodes evs = [17])"
    by blast
  from sw scr bl rm wm rs ws init_ok_run hw_ok_completes p1 p2 p3 show ?thesis
    by simp
qed
end
